theory Spec2Isabelle
  imports Complex_Main "HOL-Library.AList" "HOL-Library.Char_ord" "HOL-Library.List_Lexorder"
    "HOL-Library.Sublist"
begin

section \<open>Python values\<close>

text \<open>
  The services pass \<^verbatim>\<open>Dict[str, Any]\<close> values around: the parsed intent comes from a
  JSON reply of the language model, the candidate metadata from the vector index. They are
  modelled dynamically. Strings are their UTF-8 encoding, a list of bytes: the length of a
  string counts its characters, whitespace is what \<^verbatim>\<open>str.isspace\<close> says, and lower-casing
  acts on the ASCII letters and on the two characters that lower-case to an ASCII letter.
  Floats are rationals (no NaN, no infinity, no rounding error), and a dict is an association
  list in insertion order.
\<close>

datatype pyval =
    PNone
  | PBool bool
  | PInt int
  | PFloat rat
  | PStr string
  | PList "pyval list"
  | PDict "(string \<times> pyval) list"

type_synonym pydict = "(string \<times> pyval) list"

datatype py_error = TypeError | AttributeError | ValueError | RuntimeError

text \<open>
  Library functions of Python that the services call and that are not part of the
  repository: \<^verbatim>\<open>json.loads\<close> (\<open>None\<close> when it raises), \<^verbatim>\<open>repr\<close> of floats and
  containers, and the parsing of numbers out of text by \<^verbatim>\<open>int()\<close> and \<^verbatim>\<open>float()\<close>
  (\<open>None\<close> when they raise \<^verbatim>\<open>ValueError\<close>).
\<close>

record pylib =
  json_loads :: "string \<Rightarrow> pyval option"
  repr_other :: "pyval \<Rightarrow> string"
  int_of_text :: "string \<Rightarrow> int option"
  float_of_text :: "string \<Rightarrow> rat option"

fun truthy :: "pyval \<Rightarrow> bool" where
  "truthy PNone = False"
| "truthy (PBool b) = b"
| "truthy (PInt i) = (i \<noteq> 0)"
| "truthy (PFloat r) = (r \<noteq> 0)"
| "truthy (PStr s) = (s \<noteq> [])"
| "truthy (PList xs) = (xs \<noteq> [])"
| "truthy (PDict d) = (d \<noteq> [])"

definition py_or :: "pyval \<Rightarrow> pyval \<Rightarrow> pyval" where
  "py_or a b = (if truthy a then a else b)"

definition dget :: "pydict \<Rightarrow> string \<Rightarrow> pyval" where
  \<comment> \<open>\<^verbatim>\<open>d.get(k)\<close>\<close>
  "dget d k = (case map_of d k of None \<Rightarrow> PNone | Some v \<Rightarrow> v)"

definition dget_default :: "pydict \<Rightarrow> string \<Rightarrow> pyval \<Rightarrow> pyval" where
  \<comment> \<open>\<^verbatim>\<open>d.get(k, default)\<close>\<close>
  "dget_default d k v0 = (case map_of d k of None \<Rightarrow> v0 | Some v \<Rightarrow> v)"

definition as_dict :: "pyval \<Rightarrow> py_error + pydict" where
  \<comment> \<open>the receiver of a \<^verbatim>\<open>.get\<close> call: only a dict has the method\<close>
  "as_dict v = (case v of PDict d \<Rightarrow> Inr d | _ \<Rightarrow> Inl AttributeError)"

subsection \<open>Strings\<close>

definition lower_char :: "char \<Rightarrow> char" where
  "lower_char c = (if CHR ''A'' \<le> c \<and> c \<le> CHR ''Z'' then char_of (of_char c + (32::nat)) else c)"

definition upper_char :: "char \<Rightarrow> char" where
  "upper_char c = (if CHR ''a'' \<le> c \<and> c \<le> CHR ''z'' then char_of (of_char c - (32::nat)) else c)"

fun py_lower :: "string \<Rightarrow> string" where
  \<comment> \<open>\<^verbatim>\<open>s.lower()\<close> as far as ASCII goes: the ASCII capitals, and the two characters outside
      ASCII whose lower case has an ASCII letter, U+212A (to \<open>k\<close>) and U+0130 (to \<open>i\<close> and
      U+0307); the other letters outside ASCII keep their case\<close>
  "py_lower (a # b # c # cs) =
     (if a = CHR 0xE2 \<and> b = CHR 0x84 \<and> c = CHR 0xAA then CHR ''k'' # py_lower cs
      else if a = CHR 0xC4 \<and> b = CHR 0xB0
      then CHR ''i'' # CHR 0xCC # CHR 0x87 # py_lower (c # cs)
      else lower_char a # py_lower (b # c # cs))"
| "py_lower [a, b] =
     (if a = CHR 0xC4 \<and> b = CHR 0xB0 then [CHR ''i'', CHR 0xCC, CHR 0x87]
      else [lower_char a, lower_char b])"
| "py_lower [a] = [lower_char a]"
| "py_lower [] = []"

fun py_contains :: "string \<Rightarrow> string \<Rightarrow> bool" where
  \<comment> \<open>\<^verbatim>\<open>needle in hay\<close>, the hay first\<close>
  "py_contains [] n = (n = [])"
| "py_contains (c # cs) n = (prefix n (c # cs) \<or> py_contains cs n)"

definition any_in :: "string list \<Rightarrow> string \<Rightarrow> bool" where
  \<comment> \<open>\<^verbatim>\<open>any(w in text for w in ws)\<close>\<close>
  "any_in ws text = list_ex (py_contains text) ws"

definition ws_seqs :: "string list" where
  \<comment> \<open>the characters for which \<^verbatim>\<open>str.isspace\<close> holds (they are the ones \<^verbatim>\<open>\s\<close> matches), in
      UTF-8: U+0009 to U+000D, U+001C to U+0020, U+0085, U+00A0, U+1680, U+2000 to U+200A,
      U+2028, U+2029, U+202F, U+205F, U+3000\<close>
  "ws_seqs =
     [[CHR 0x09], [CHR 0x0A], [CHR 0x0B], [CHR 0x0C], [CHR 0x0D],
      [CHR 0x1C], [CHR 0x1D], [CHR 0x1E], [CHR 0x1F], [CHR 0x20],
      [CHR 0xC2, CHR 0x85], [CHR 0xC2, CHR 0xA0], [CHR 0xE1, CHR 0x9A, CHR 0x80],
      [CHR 0xE2, CHR 0x80, CHR 0x80], [CHR 0xE2, CHR 0x80, CHR 0x81],
      [CHR 0xE2, CHR 0x80, CHR 0x82], [CHR 0xE2, CHR 0x80, CHR 0x83],
      [CHR 0xE2, CHR 0x80, CHR 0x84], [CHR 0xE2, CHR 0x80, CHR 0x85],
      [CHR 0xE2, CHR 0x80, CHR 0x86], [CHR 0xE2, CHR 0x80, CHR 0x87],
      [CHR 0xE2, CHR 0x80, CHR 0x88], [CHR 0xE2, CHR 0x80, CHR 0x89],
      [CHR 0xE2, CHR 0x80, CHR 0x8A], [CHR 0xE2, CHR 0x80, CHR 0xA8],
      [CHR 0xE2, CHR 0x80, CHR 0xA9], [CHR 0xE2, CHR 0x80, CHR 0xAF],
      [CHR 0xE2, CHR 0x81, CHR 0x9F], [CHR 0xE3, CHR 0x80, CHR 0x80]]"

definition space_at :: "string \<Rightarrow> string option" where
  \<comment> \<open>the whitespace character that stands at the head of \<open>s\<close>, if one does\<close>
  "space_at s = find (\<lambda>w. w \<noteq> [] \<and> prefix w s) ws_seqs"

function strip_lead :: "string list \<Rightarrow> string \<Rightarrow> string" where
  \<comment> \<open>drops the sequences of \<open>seqs\<close> from the front of \<open>s\<close> as long as one stands there\<close>
  "strip_lead seqs s =
     (case find (\<lambda>w. w \<noteq> [] \<and> prefix w s) seqs of
        None \<Rightarrow> s
      | Some w \<Rightarrow> strip_lead seqs (drop (length w) s))"
  by pat_completeness auto
termination
proof (relation "measure (\<lambda>(seqs, s). length s)")
  fix seqs :: "string list" and s w :: string
  assume "find (\<lambda>w. w \<noteq> [] \<and> prefix w s) seqs = Some w"
  then have "w \<noteq> [] \<and> prefix w s"
    by (auto simp: find_Some_iff)
  then have "0 < length w" and "length w \<le> length s"
    by (auto simp: prefix_def)
  then have "length s - length w < length s"
    by arith
  then show "((seqs, drop (length w) s), (seqs, s)) \<in> measure (\<lambda>(seqs, s). length s)"
    by simp
qed simp

declare strip_lead.simps [simp del]

definition lstrip :: "string \<Rightarrow> string" where
  \<comment> \<open>without its leading whitespace: \<^verbatim>\<open>s.lstrip()\<close>, and what is left after \<^verbatim>\<open>\s*\<close>\<close>
  "lstrip s = strip_lead ws_seqs s"

definition rstrip :: "string \<Rightarrow> string" where
  "rstrip s = rev (strip_lead (map rev ws_seqs) (rev s))"

definition py_strip :: "string \<Rightarrow> string" where
  \<comment> \<open>\<^verbatim>\<open>s.strip()\<close>\<close>
  "py_strip s = rstrip (lstrip s)"

definition py_len :: "string \<Rightarrow> nat" where
  \<comment> \<open>\<^verbatim>\<open>len(s)\<close>: the characters of \<open>s\<close>, one for each byte that is no continuation byte\<close>
  "py_len s = length (filter (\<lambda>c. \<not> (CHR 0x80 \<le> c \<and> c \<le> CHR 0xBF)) s)"

definition ends_terminal :: "string \<Rightarrow> bool" where
  \<comment> \<open>\<^verbatim>\<open>s.endswith((".", "!", "?"))\<close>\<close>
  "ends_terminal s = (s \<noteq> [] \<and> last s \<in> set [CHR ''.'', CHR ''!'', CHR ''?''])"

definition str_or_empty_lower :: "pyval \<Rightarrow> py_error + string" where
  \<comment> \<open>\<^verbatim>\<open>(v or "").lower()\<close>: a truthy value that is no string has no \<^verbatim>\<open>lower\<close>\<close>
  "str_or_empty_lower v =
     (if \<not> truthy v then Inr []
      else case v of PStr s \<Rightarrow> Inr (py_lower s) | _ \<Rightarrow> Inl AttributeError)"

subsection \<open>Conversions\<close>

function dec_nat :: "nat \<Rightarrow> string" where
  "dec_nat n = (if n < 10 then [char_of (48 + n)] else dec_nat (n div 10) @ [char_of (48 + n mod 10)])"
  by pat_completeness auto
termination
  by (relation "measure id") auto

declare dec_nat.simps [simp del]

definition py_str :: "pylib \<Rightarrow> pyval \<Rightarrow> string" where
  \<comment> \<open>\<^verbatim>\<open>str(v)\<close>\<close>
  "py_str lib v =
     (case v of
        PStr s \<Rightarrow> s
      | PNone \<Rightarrow> ''None''
      | PBool b \<Rightarrow> (if b then ''True'' else ''False'')
      | PInt i \<Rightarrow> (if i < 0 then CHR ''-'' # dec_nat (nat (- i)) else dec_nat (nat i))
      | _ \<Rightarrow> repr_other lib v)"

definition trunc_rat :: "rat \<Rightarrow> int" where
  "trunc_rat r = (if 0 \<le> r then \<lfloor>r\<rfloor> else \<lceil>r\<rceil>)"

definition py_int :: "pylib \<Rightarrow> pyval \<Rightarrow> int option" where
  \<comment> \<open>\<^verbatim>\<open>int(v)\<close>, \<open>None\<close> when it raises (every call in the services is inside a \<^verbatim>\<open>try\<close>)\<close>
  "py_int lib v =
     (case v of
        PInt i \<Rightarrow> Some i
      | PBool b \<Rightarrow> Some (if b then 1 else 0)
      | PFloat r \<Rightarrow> Some (trunc_rat r)
      | PStr s \<Rightarrow> int_of_text lib s
      | _ \<Rightarrow> None)"

definition py_float :: "pylib \<Rightarrow> pyval \<Rightarrow> py_error + rat" where
  \<comment> \<open>\<^verbatim>\<open>float(v)\<close>\<close>
  "py_float lib v =
     (case v of
        PInt i \<Rightarrow> Inr (of_int i)
      | PBool b \<Rightarrow> Inr (if b then 1 else 0)
      | PFloat r \<Rightarrow> Inr r
      | PStr s \<Rightarrow> (case float_of_text lib s of None \<Rightarrow> Inl ValueError | Some r \<Rightarrow> Inr r)
      | _ \<Rightarrow> Inl TypeError)"

definition py_round :: "rat \<Rightarrow> int" where
  \<comment> \<open>\<^verbatim>\<open>round(x)\<close> of a float: to the nearest integer, a tie to the even one\<close>
  "py_round x =
     (let f = \<lfloor>x\<rfloor>; d = x - of_int f
      in if d < 1 / 2 then f else if 1 / 2 < d then f + 1 else if even f then f else f + 1)"

fun py_iter :: "pyval \<Rightarrow> py_error + pyval list" where
  \<comment> \<open>the elements a \<^verbatim>\<open>for\<close> loop sees\<close>
  "py_iter (PList xs) = Inr xs"
| "py_iter (PStr s) = Inr (map (\<lambda>c. PStr [c]) s)"
| "py_iter (PDict d) = Inr (map (\<lambda>kv. PStr (fst kv)) d)"
| "py_iter _ = Inl TypeError"

fun lower_strs :: "pyval list \<Rightarrow> string list" where
  \<comment> \<open>\<^verbatim>\<open>[u.lower() for u in xs if isinstance(u, str)]\<close>\<close>
  "lower_strs [] = []"
| "lower_strs (PStr s # xs) = py_lower s # lower_strs xs"
| "lower_strs (_ # xs) = lower_strs xs"

fun words_acc :: "string \<Rightarrow> string \<Rightarrow> string list" where
  \<comment> \<open>\<open>cur\<close> is the word being read, reversed; a whitespace character \<open>w\<close> at the head
      closes it and is skipped, \<open>c\<close> being its first byte\<close>
  "words_acc [] cur = (if cur = [] then [] else [rev cur])"
| "words_acc (c # cs) cur =
     (case space_at (c # cs) of
        Some w \<Rightarrow> (if cur = [] then words_acc (drop (length w - 1) cs) []
                  else rev cur # words_acc (drop (length w - 1) cs) [])
      | None \<Rightarrow> words_acc cs (c # cur))"

definition py_split :: "string \<Rightarrow> string list" where
  \<comment> \<open>\<^verbatim>\<open>s.split()\<close>: the maximal runs of characters that are not whitespace\<close>
  "py_split s = words_acc s []"

fun py_join :: "string \<Rightarrow> string list \<Rightarrow> string" where
  \<comment> \<open>\<^verbatim>\<open>sep.join(xs)\<close>\<close>
  "py_join sep [] = []"
| "py_join sep [x] = x"
| "py_join sep (x # y # ys) = x @ sep @ py_join sep (y # ys)"

definition py_slice_to :: "int \<Rightarrow> 'a list \<Rightarrow> 'a list" where
  \<comment> \<open>\<^verbatim>\<open>xs[:k]\<close>: a negative \<open>k\<close> counts from the end\<close>
  "py_slice_to k xs = (if 0 \<le> k then take (nat k) xs else take (length xs - nat (- k)) xs)"

definition hashable :: "pyval \<Rightarrow> bool" where
  "hashable v = (case v of PList _ \<Rightarrow> False | PDict _ \<Rightarrow> False | _ \<Rightarrow> True)"

section \<open>Candidate scorer (matcher\_agent.py)\<close>


definition persona_match_score :: "pylib \<Rightarrow> pydict \<Rightarrow> pydict \<Rightarrow> py_error + rat" where
  "persona_match_score lib parsed metadata =
     (let score = (0::rat); total = (0::rat);
          band = truthy (dget parsed ''budget_band'') \<and> truthy (dget metadata ''price_band'');
          total = (if band then total + 1 else total);
          score = (if band \<and> py_lower (py_str lib (dget parsed ''budget_band''))
                            = py_lower (py_str lib (dget_default metadata ''price_band'' (PStr [])))
                   then score + 1 else score);
          fam = dget parsed ''family_size'';
          seats = dget metadata ''seats'';
          both = (fam \<noteq> PNone \<and> seats \<noteq> PNone);
          total = (if both then total + 1 else total);
          score = (if both \<and> (case py_int lib seats of None \<Rightarrow> False
                                | Some s \<Rightarrow> (case py_int lib fam of None \<Rightarrow> False
                                            | Some f \<Rightarrow> f + 1 \<le> s))
                   then score + 1 else score);
          usage0 = py_or (dget_default parsed ''usage'' (PList [])) (PList [])
      in case str_or_empty_lower (dget metadata ''body_type'') of
           Inl e \<Rightarrow> Inl e
         | Inr body \<Rightarrow>
            (case py_iter usage0 of
               Inl e \<Rightarrow> Inl e
             | Inr us \<Rightarrow>
                (let usage = lower_strs us;
                     on = (usage \<noteq> [] \<and> body \<noteq> []);
                     h1 = (on \<and> ''offroad'' \<in> set usage \<and> py_contains body ''suv'');
                     h2 = (on \<and> ''city'' \<in> set usage
                              \<and> any_in [''hatch'', ''sedan'', ''compact''] body);
                     h3 = (on \<and> ''family'' \<in> set usage
                              \<and> any_in [''mpv'', ''suv'', ''minivan'', ''estate''] body);
                     score = (if h1 then score + 1 else score);
                     score = (if h2 then score + 1 else score);
                     score = (if h3 then score + 1 else score);
                     usage_hit = (h1 \<or> h2 \<or> h3);
                     total = (if usage_hit then total + 1 else total)
                 in if total = 0 then Inr 50 else Inr ((score / total) * 100))))"

definition year_bonus :: "pylib \<Rightarrow> pyval \<Rightarrow> rat" where
  "year_bonus lib year =
     (if truthy year then
        (case py_int lib year of
           None \<Rightarrow> 0
         | Some y \<Rightarrow> if 2022 \<le> y then 30 else if 2017 \<le> y then 20 else if 2012 \<le> y then 10 else 0)
      else 0)"

definition km_bonus :: "pylib \<Rightarrow> pyval \<Rightarrow> rat" where
  "km_bonus lib km =
     (if truthy km then
        (case py_int lib km of
           None \<Rightarrow> 0
         | Some k \<Rightarrow> if k < 30000 then 25 else if k < 60000 then 15 else if k < 100000 then 5 else 0)
      else 0)"

definition fuel_bonus :: "string \<Rightarrow> rat" where
  "fuel_bonus fuel =
     (if py_contains fuel ''electric'' \<or> py_contains fuel ''ev'' then 30
      else if py_contains fuel ''hybrid'' then 25
      else if py_contains fuel ''diesel'' then 20
      else if py_contains fuel ''petrol'' then 10
      else 0)"

definition heuristic_boost :: "pylib \<Rightarrow> pydict \<Rightarrow> pydict \<Rightarrow> py_error + rat" where
  "heuristic_boost lib parsed metadata =
     (let boost = (0::rat);
          boost = boost + year_bonus lib (dget metadata ''year'');
          boost = boost + km_bonus lib (dget metadata ''km_driven'')
      in case str_or_empty_lower (dget metadata ''fuel'') of
           Inl e \<Rightarrow> Inl e
         | Inr fuel \<Rightarrow>
            (let boost = boost + fuel_bonus fuel
             in case str_or_empty_lower (dget parsed ''budget_band'') of
                  Inl e \<Rightarrow> Inl e
                | Inr user_band \<Rightarrow>
                   (case str_or_empty_lower (dget metadata ''price_band'') of
                      Inl e \<Rightarrow> Inl e
                    | Inr car_band \<Rightarrow>
                       (let boost = (if user_band \<noteq> [] \<and> car_band \<noteq> [] \<and> user_band = car_band
                                     then boost + 25 else boost)
                        in Inr (min 100 boost)))))"

definition safe_get_name :: "pydict \<Rightarrow> pyval \<Rightarrow> pyval" where
  "safe_get_name metadata candidate_id =
     py_or (dget metadata ''raw_name'')
       (py_or (dget metadata ''name'')
          (py_or (dget metadata ''title'') (py_or candidate_id (PStr ''Unknown''))))"

definition normalize_similarity :: "rat \<Rightarrow> rat" where
  \<comment> \<open>the argument is the float that \<^verbatim>\<open>score_candidates\<close> passes\<close>
  "normalize_similarity pinecone_score =
     (let s = pinecone_score;
          s = (if s < 0 then 0 else s);
          s = (if 2 < s then 1 / (1 + s) else s);
          s = max 0 (min 1 s)
      in s * 100)"

section \<open>Justification generator (reason\_agent.py)\<close>

definition nb_hyphen :: string where
  \<comment> \<open>U+2011, the hyphen of the source's sentences, in UTF-8\<close>
  "nb_hyphen = [CHR 0xE2, CHR 0x80, CHR 0x91]"

definition r_quote :: string where
  \<comment> \<open>U+2019, the apostrophe of the source's sentences, in UTF-8\<close>
  "r_quote = [CHR 0xE2, CHR 0x80, CHR 0x99]"

definition generic_sentence :: string where
  "generic_sentence =
     ''This car is a well'' @ nb_hyphen @ ''rounded choice that fits your described needs.''"

definition label_lower :: "pydict \<Rightarrow> py_error + string" where
  \<comment> \<open>\<^verbatim>\<open>persona.get("label", "").lower()\<close>\<close>
  "label_lower persona =
     (case dget_default persona ''label'' (PStr []) of
        PStr s \<Rightarrow> Inr (py_lower s)
      | _ \<Rightarrow> Inl AttributeError)"

definition finish_sentence :: "string list \<Rightarrow> string" where
  "finish_sentence bits =
     (if bits = [] then generic_sentence
      else let sentence = py_join '', '' (take 3 bits);
               sentence = (if \<not> ends_terminal sentence then sentence @ ''.'' else sentence)
           in upper_char (hd sentence) # tl sentence)"

definition fallback_bits ::
  "pylib \<Rightarrow> pydict \<Rightarrow> pyval \<Rightarrow> py_error + string list" where
  \<comment> \<open>the list \<^verbatim>\<open>bits\<close> of \<^verbatim>\<open>_fallback_reason_from_rules\<close> when its last clause is reached\<close>
  "fallback_bits lib persona meta =
     (case py_iter (py_or (dget persona ''primary_needs'') (PList [])) of
        Inl e \<Rightarrow> Inl e
      | Inr needs \<Rightarrow>
         if \<not> list_all hashable needs then Inl TypeError
         else
          (case as_dict meta of
             Inl e \<Rightarrow> Inl e
           | Inr m \<Rightarrow>
              (case str_or_empty_lower (dget m ''body_type'') of
                 Inl e \<Rightarrow> Inl e
               | Inr body \<Rightarrow>
                  (let year = dget m ''year'' in
                   case str_or_empty_lower
                          (py_or (dget m ''fuel_type'') (py_or (dget m ''fuel'') (PStr []))) of
                     Inl e \<Rightarrow> Inl e
                   | Inr fuel \<Rightarrow>
                      (let seats = dget m ''seats'';
                           has = (\<lambda>k. PStr k \<in> set needs);
                           bits = [];
                           bits = (if has ''comfort'' then bits @ [''is comfortable to drive'']
                                   else bits);
                           bits = (if has ''fuel_economy'' then
                                     (if py_contains fuel ''hybrid''
                                      then bits @ [''helps you save fuel with its hybrid setup'']
                                      else bits @ [''is fuel'' @ nb_hyphen
                                                   @ ''efficient for everyday use''])
                                   else bits)
                       in case (if has ''space'' then Inr True
                                else case label_lower persona of
                                       Inl e \<Rightarrow> Inl e
                                     | Inr l \<Rightarrow> Inr (py_contains l ''family'')) of
                            Inl e \<Rightarrow> Inl e
                          | Inr fam \<Rightarrow>
                             (let bits = (if fam then
                                            (if truthy seats
                                             then bits @ [''has enough space for your family'']
                                             else bits @ [''offers practical space for family use''])
                                          else bits);
                                  bits = (if has ''safety''
                                          then bits @ [''keeps your family'' @ r_quote
                                                       @ ''s safety in mind'']
                                          else bits);
                                  bits = (if has ''easy_to_park''
                                          then bits @ [''is easy to handle and park in the city'']
                                          else bits);
                                  bits = (if body = ''suv''
                                          then bits @ [''gives you an SUV'' @ r_quote
                                                       @ ''s higher driving position'']
                                          else if body = ''sedan''
                                          then bits @ [''has a balanced sedan design for daily commutes'']
                                          else bits);
                                  bits = (if truthy year \<and>
                                             (case py_int lib year of None \<Rightarrow> False
                                              | Some y \<Rightarrow> 2022 \<le> y)
                                          then bits @ [''comes from a recent model year with modern features'']
                                          else bits)
                              in Inr bits))))))"

definition fallback_reason_from_rules ::
  "pylib \<Rightarrow> string \<Rightarrow> pydict \<Rightarrow> pyval \<Rightarrow> py_error + string" where
  "fallback_reason_from_rules lib user_text persona meta =
     (case fallback_bits lib persona meta of
        Inl e \<Rightarrow> Inl e
      | Inr bits \<Rightarrow> Inr (finish_sentence bits))"

definition car_for_prompt :: "pyval \<Rightarrow> py_error + pyval" where
  \<comment> \<open>one element of \<^verbatim>\<open>cars_for_prompt\<close>\<close>
  "car_for_prompt m =
     (case as_dict m of
        Inl e \<Rightarrow> Inl e
      | Inr md \<Rightarrow>
         (case as_dict (py_or (dget md ''metadata'') (PDict [])) of
            Inl e \<Rightarrow> Inl e
          | Inr meta \<Rightarrow>
             Inr (PDict
               [(''id'', dget md ''id''),
                (''name'', py_or (dget meta ''model'') (py_or (dget meta ''raw_name'') (dget md ''name''))),
                (''body_type'', py_or (dget meta ''body_type'') (PStr [])),
                (''price_band'', py_or (dget meta ''price_band'') (PStr [])),
                (''year'', dget meta ''year''),
                (''fuel_type'', py_or (dget meta ''fuel_type'') (py_or (dget meta ''fuel'') (PStr []))),
                (''seats'', dget meta ''seats''),
                (''tags'', py_or (dget meta ''tags'') (PStr []))])))"

fun cars_for_prompt :: "pyval list \<Rightarrow> py_error + pyval list" where
  "cars_for_prompt [] = Inr []"
| "cars_for_prompt (m # ms) =
     (case car_for_prompt m of
        Inl e \<Rightarrow> Inl e
      | Inr c \<Rightarrow> (case cars_for_prompt ms of Inl e \<Rightarrow> Inl e | Inr cs \<Rightarrow> Inr (c # cs)))"

definition bracket_span :: "string \<Rightarrow> string option" where
  \<comment> \<open>\<^verbatim>\<open>re.search(r"(\[.*\])", raw, re.S)\<close>: from the first \<^verbatim>\<open>[\<close> to the last \<^verbatim>\<open>]\<close>\<close>
  "bracket_span raw =
     (let r = dropWhile (\<lambda>c. c \<noteq> CHR ''['') raw;
          b = rev (dropWhile (\<lambda>c. c \<noteq> CHR '']'') (rev r))
      in if b = [] then None else Some b)"

definition clean_reason :: "string \<Rightarrow> string" where
  \<comment> \<open>what is stored for a stripped, non-empty reason\<close>
  "clean_reason reason =
     (let words = py_split reason;
          reason = (if 30 < length words then py_join '' '' (take 30 words) else reason)
      in if \<not> ends_terminal reason then reason @ ''.'' else reason)"

definition add_reason :: "pylib \<Rightarrow> (string \<times> string) list \<Rightarrow> pyval \<Rightarrow> (string \<times> string) list" where
  \<comment> \<open>the body of the loop over the reply's objects\<close>
  "add_reason lib reasons_by_id obj =
     (case obj of
        PDict d \<Rightarrow>
          (case map_of d ''id'' of
             None \<Rightarrow> reasons_by_id
           | Some i \<Rightarrow>
              (case map_of d ''reason'' of
                 Some (PStr r) \<Rightarrow>
                   (let rid = py_str lib i; reason = py_strip r
                    in if reason \<noteq> [] then AList.update rid (clean_reason reason) reasons_by_id
                       else reasons_by_id)
               | _ \<Rightarrow> reasons_by_id))
      | _ \<Rightarrow> reasons_by_id)"

definition reasons_of_data :: "pylib \<Rightarrow> pyval \<Rightarrow> (string \<times> string) list" where
  "reasons_of_data lib data =
     (case data of PList objs \<Rightarrow> foldl (add_reason lib) [] objs | _ \<Rightarrow> [])"

definition reply_data :: "pylib \<Rightarrow> string \<Rightarrow> pyval option" where
  \<comment> \<open>\<^verbatim>\<open>data\<close>: the reply as JSON, else its bracketed part as JSON; \<open>None\<close> where the
      source returns the empty dict\<close>
  "reply_data lib raw =
     (case json_loads lib raw of
        Some data \<Rightarrow> Some data
      | None \<Rightarrow> (case bracket_span raw of None \<Rightarrow> None | Some m \<Rightarrow> json_loads lib m))"

definition generate_reasons_for_top_k ::
  "pylib \<Rightarrow> string option \<Rightarrow> string \<Rightarrow> pydict \<Rightarrow> pyval list
     \<Rightarrow> py_error + (string \<times> string) list" where
  \<comment> \<open>\<open>reply\<close> is what \<^verbatim>\<open>chat_completion\<close> returns for the batched request\<close>
  "generate_reasons_for_top_k lib reply user_text persona top_matches =
     (case cars_for_prompt top_matches of
        Inl e \<Rightarrow> Inl e
      | Inr cars \<Rightarrow>
         (case reply of
            None \<Rightarrow> Inr []
          | Some raw \<Rightarrow>
             if raw = [] then Inr []
             else (case reply_data lib raw of
                     None \<Rightarrow> Inr []
                   | Some data \<Rightarrow> Inr (reasons_of_data lib data))))"

section \<open>Ranking (matcher\_agent.py)\<close>

definition specs_of :: "pydict \<Rightarrow> pydict" where
  "specs_of meta =
     [(''make'', dget meta ''make''),
      (''model'', py_or (dget meta ''model'') (dget meta ''raw_name'')),
      (''raw_name'', dget meta ''raw_name''),
      (''year'', dget meta ''year''),
      (''fuel_type'', py_or (dget meta ''fuel_type'') (dget meta ''fuel'')),
      (''seats'', dget meta ''seats''),
      (''price'', py_or (dget meta ''price'') (dget meta ''selling_price'')),
      (''price_band'', dget meta ''price_band''),
      (''km_driven'', dget meta ''km_driven''),
      (''drivetrain'', dget meta ''drivetrain''),
      (''transmission'', dget meta ''transmission''),
      (''tags'', dget meta ''tags'')]"

definition final_score :: "rat \<Rightarrow> rat \<Rightarrow> rat \<Rightarrow> int" where
  "final_score semantic persona_score heur =
     (let alpha = 1 / 4; beta = 3 / 20;
          final = semantic + alpha * persona_score + beta * heur;
          final = max 0 (min 100 final)
      in py_round final)"

definition score_one :: "pylib \<Rightarrow> pydict \<Rightarrow> pyval \<Rightarrow> py_error + pydict" where
  \<comment> \<open>the body of the loop over the candidates: the dict appended to \<^verbatim>\<open>results\<close>\<close>
  "score_one lib parsed c =
     (let meta0 = (case c of PDict cd \<Rightarrow> py_or (dget cd ''metadata'') (PDict []) | _ \<Rightarrow> PDict [])
      in case (case c of PDict cd \<Rightarrow> py_float lib (dget_default cd ''score'' (PFloat 0))
               | _ \<Rightarrow> Inr 0) of
           Inl e \<Rightarrow> Inl e
         | Inr pinecone_score \<Rightarrow>
            (let semantic = normalize_similarity pinecone_score
             in case as_dict (py_or meta0 (PDict [])) of
                  Inl e \<Rightarrow> Inl e
                | Inr meta \<Rightarrow>
                   (case persona_match_score lib parsed meta of
                      Inl e \<Rightarrow> Inl e
                    | Inr persona_score \<Rightarrow>
                       (case heuristic_boost lib parsed meta of
                          Inl e \<Rightarrow> Inl e
                        | Inr heur \<Rightarrow>
                           (case as_dict c of
                              Inl e \<Rightarrow> Inl e
                            | Inr cd \<Rightarrow>
                               Inr [(''id'', dget cd ''id''),
                                    (''name'', safe_get_name meta (dget cd ''id'')),
                                    (''score'', PInt (final_score semantic persona_score heur)),
                                    (''reasons'', PList []),
                                    (''image_url'', dget meta ''image_url''),
                                    (''price_band'', dget meta ''price_band''),
                                    (''body_type'', dget meta ''body_type''),
                                    (''specs'', PDict (specs_of meta))])))))"

fun score_all :: "pylib \<Rightarrow> pydict \<Rightarrow> pyval list \<Rightarrow> py_error + pydict list" where
  "score_all lib parsed [] = Inr []"
| "score_all lib parsed (c # cs) =
     (case score_one lib parsed c of
        Inl e \<Rightarrow> Inl e
      | Inr m \<Rightarrow> (case score_all lib parsed cs of Inl e \<Rightarrow> Inl e | Inr ms \<Rightarrow> Inr (m # ms)))"

definition match_score :: "pydict \<Rightarrow> int" where
  \<comment> \<open>the sort key \<^verbatim>\<open>x["score"]\<close>; every dict of \<^verbatim>\<open>results\<close> holds an int there\<close>
  "match_score m = (case dget m ''score'' of PInt n \<Rightarrow> n | _ \<Rightarrow> 0)"

definition sort_desc :: "pydict list \<Rightarrow> pydict list" where
  \<comment> \<open>\<^verbatim>\<open>results.sort(key=..., reverse=True)\<close>: stable, largest key first\<close>
  "sort_desc results = sort_key (\<lambda>m. - match_score m) results"

definition attach_reason ::
  "pylib \<Rightarrow> string \<Rightarrow> pydict \<Rightarrow> (string \<times> string) list \<Rightarrow> pydict \<Rightarrow> py_error + pydict" where
  \<comment> \<open>the body of the last loop of \<^verbatim>\<open>score_candidates\<close>\<close>
  "attach_reason lib user_text persona reasons_by_id r =
     (let rid = py_str lib (dget r ''id'');
          meta = py_or (dget r ''metadata'') (PDict [])
      in case map_of reasons_by_id rid of
           Some reason \<Rightarrow> Inr (AList.update ''reasons'' (PList [PStr reason]) r)
         | None \<Rightarrow>
            (case fallback_reason_from_rules lib user_text persona meta of
               Inl e \<Rightarrow> Inl e
             | Inr fallback \<Rightarrow> Inr (AList.update ''reasons'' (PList [PStr fallback]) r)))"

fun attach_all ::
  "pylib \<Rightarrow> string \<Rightarrow> pydict \<Rightarrow> (string \<times> string) list \<Rightarrow> pydict list
     \<Rightarrow> py_error + pydict list" where
  "attach_all lib user_text persona rs [] = Inr []"
| "attach_all lib user_text persona rs (r # rest) =
     (case attach_reason lib user_text persona rs r of
        Inl e \<Rightarrow> Inl e
      | Inr m \<Rightarrow>
         (case attach_all lib user_text persona rs rest of
            Inl e \<Rightarrow> Inl e
          | Inr ms \<Rightarrow> Inr (m # ms)))"

definition score_candidates ::
  "pylib \<Rightarrow> string option \<Rightarrow> pydict \<Rightarrow> pydict \<Rightarrow> pyval list \<Rightarrow> string \<Rightarrow> int
     \<Rightarrow> py_error + pydict list" where
  \<comment> \<open>\<open>reply\<close> is the completion's answer to the batched justification request\<close>
  "score_candidates lib reply parsed persona candidates user_text top_k =
     (case score_all lib parsed candidates of
        Inl e \<Rightarrow> Inl e
      | Inr results \<Rightarrow>
         (let top_matches = py_slice_to top_k (sort_desc results)
          in case generate_reasons_for_top_k lib reply user_text persona (map PDict top_matches) of
               Inl e \<Rightarrow> Inl e
             | Inr reasons_by_id \<Rightarrow> attach_all lib user_text persona reasons_by_id top_matches))"

section \<open>Intent extractor (semantic\_parser\_agent.py)\<close>

definition setdefault :: "pydict \<Rightarrow> string \<Rightarrow> pyval \<Rightarrow> pydict" where
  \<comment> \<open>\<^verbatim>\<open>d.setdefault(k, v)\<close>, also \<^verbatim>\<open>if k not in d: d[k] = v\<close>\<close>
  "setdefault d k v = (case map_of d k of None \<Rightarrow> d @ [(k, v)] | Some _ \<Rightarrow> d)"

definition fill_required :: "pydict \<Rightarrow> pydict" where
  "fill_required d =
     setdefault (setdefault (setdefault (setdefault (setdefault (setdefault d
       ''family_size'' PNone) ''budget_band'' PNone) ''usage'' (PList []))
       ''preferences'' (PList [])) ''body_type_preference'' (PList [])) ''other'' (PDict [])"

definition sorted_strs :: "string list \<Rightarrow> pyval" where
  \<comment> \<open>\<^verbatim>\<open>sorted(a_set)\<close> of a set of strings, held as a list\<close>
  "sorted_strs xs = PList (map PStr (sort (remdups xs)))"

definition sedan_missing :: "pyval \<Rightarrow> py_error + bool" where
  \<comment> \<open>\<^verbatim>\<open>"sedan" not in v\<close>\<close>
  "sedan_missing v =
     (case v of
        PList xs \<Rightarrow> Inr (PStr ''sedan'' \<notin> set xs)
      | PStr s \<Rightarrow> Inr (\<not> py_contains s ''sedan'')
      | PDict d \<Rightarrow> Inr (map_of d ''sedan'' = None)
      | _ \<Rightarrow> Inl TypeError)"

definition py_append :: "pyval \<Rightarrow> string \<Rightarrow> py_error + pyval" where
  \<comment> \<open>\<^verbatim>\<open>v.append(s)\<close>: only a list has the method\<close>
  "py_append v s = (case v of PList xs \<Rightarrow> Inr (PList (xs @ [PStr s])) | _ \<Rightarrow> Inl AttributeError)"

definition enrich_family :: "string \<Rightarrow> pydict \<Rightarrow> pydict" where
  "enrich_family text parsed =
     (if any_in [''family'', ''families'', ''kids''] text \<and> dget parsed ''family_size'' = PNone then
        (if py_contains text ''small family'' \<or> py_contains text ''small families''
         then AList.update ''family_size'' (PInt 3) parsed
         else if py_contains text ''big family'' \<or> py_contains text ''large family''
         then AList.update ''family_size'' (PInt 5) parsed
         else AList.update ''family_size'' (PInt 3) parsed)
      else parsed)"

definition enrich_budget :: "string \<Rightarrow> pydict \<Rightarrow> pydict" where
  "enrich_budget text parsed =
     (if dget parsed ''budget_band'' = PNone then
        (if any_in [''mid price range'', ''mid price'', ''mid-range'', ''mid range''] text
         then AList.update ''budget_band'' (PStr ''mid'') parsed
         else if any_in [''low budget'', ''cheap'', ''entry level'', ''entry-level''] text
         then AList.update ''budget_band'' (PStr ''low'') parsed
         else if any_in [''high budget'', ''premium'', ''luxury''] text
         then AList.update ''budget_band'' (PStr ''high'') parsed
         else parsed)
      else parsed)"

definition enrich_usage :: "string \<Rightarrow> string list \<Rightarrow> string list" where
  \<comment> \<open>the additions to the set \<^verbatim>\<open>usage\<close>\<close>
  "enrich_usage text usage =
     (let usage = (if any_in [''family'', ''families'', ''kids''] text then usage @ [''family'']
                   else usage);
          usage = (if any_in [''daily commute'', ''daily commuting'', ''daily driving'',
                              ''office commute'', ''city traffic'', ''city driving'', ''city use'']
                             text
                   then usage @ [''city''] else usage);
          usage = (if any_in [''hiking'', ''camp'', ''offroad'', ''trail'', ''mountain'',
                              ''camping'', ''trails''] text
                   then usage @ [''offroad''] else usage)
      in usage)"

definition enrich_prefs :: "string \<Rightarrow> string list \<Rightarrow> string list" where
  \<comment> \<open>the additions to the set \<^verbatim>\<open>prefs\<close>\<close>
  "enrich_prefs text prefs =
     (let prefs = (if any_in [''hiking'', ''camp'', ''offroad'', ''trail'', ''mountain'',
                              ''camping'', ''trails''] text
                   then prefs @ [''ruggedness''] else prefs);
          prefs = (if py_contains text ''comfortable'' \<or> py_contains text ''comfort''
                   then prefs @ [''comfort''] else prefs);
          prefs = (if py_contains text ''safe'' \<or> py_contains text ''safety''
                   then prefs @ [''safety''] else prefs);
          prefs = (if py_contains text ''mileage'' \<or> py_contains text ''fuel efficient''
                      \<or> py_contains text ''fuel efficiency'' \<or> py_contains text ''low fuel cost''
                   then prefs @ [''fuel_economy''] else prefs);
          prefs = (if py_contains text ''powerful'' \<or> py_contains text ''performance''
                      \<or> py_contains text ''sporty'' \<or> py_contains text ''fast''
                   then prefs @ [''performance''] else prefs);
          prefs = (if py_contains text ''reliable'' \<or> py_contains text ''low maintenance''
                   then prefs @ [''reliability''] else prefs)
      in prefs)"

definition enrich_midsize :: "string \<Rightarrow> pydict \<Rightarrow> py_error + pydict" where
  "enrich_midsize text parsed =
     (if any_in [''midsize car'', ''mid size car'', ''mid-size car''] text then
        (case sedan_missing (dget parsed ''body_type_preference'') of
           Inl e \<Rightarrow> Inl e
         | Inr missing \<Rightarrow>
            if missing then
              (case py_append (dget parsed ''body_type_preference'') ''sedan'' of
                 Inl e \<Rightarrow> Inl e
               | Inr v \<Rightarrow> Inr (AList.update ''body_type_preference'' v parsed))
            else Inr parsed)
      else Inr parsed)"

definition enrich_offroad :: "string list \<Rightarrow> pydict \<Rightarrow> py_error + pydict" where
  "enrich_offroad usage parsed =
     (if ''offroad'' \<in> set usage \<and> \<not> truthy (dget parsed ''body_type_preference'') then
        (case py_append (dget parsed ''body_type_preference'') ''suv'' of
           Inl e \<Rightarrow> Inl e
         | Inr v \<Rightarrow> Inr (AList.update ''body_type_preference'' v parsed))
      else Inr parsed)"

definition enrich_from_text :: "pydict \<Rightarrow> string \<Rightarrow> py_error + pydict" where
  "enrich_from_text parsed0 user_text =
     (let text = py_lower user_text;
          parsed = fill_required parsed0
      in case py_iter (dget parsed ''usage'') of
           Inl e \<Rightarrow> Inl e
         | Inr us \<Rightarrow>
            (case py_iter (dget parsed ''preferences'') of
               Inl e \<Rightarrow> Inl e
             | Inr ps \<Rightarrow>
                (let usage = enrich_usage text (lower_strs us);
                     prefs = enrich_prefs text (lower_strs ps);
                     parsed = enrich_family text parsed;
                     parsed = enrich_budget text parsed
                 in case enrich_midsize text parsed of
                      Inl e \<Rightarrow> Inl e
                    | Inr parsed \<Rightarrow>
                       (case enrich_offroad usage parsed of
                          Inl e \<Rightarrow> Inl e
                        | Inr parsed \<Rightarrow>
                           Inr (AList.update ''preferences'' (sorted_strs prefs)
                                  (AList.update ''usage'' (sorted_strs usage) parsed))))))"

fun scan_json :: "string \<Rightarrow> int \<Rightarrow> bool \<Rightarrow> bool \<Rightarrow> nat option" where
  \<comment> \<open>the loop of \<^verbatim>\<open>_find_first_balanced_json\<close> from index \<open>i\<close> on; the result counts the
      characters up to and including the one where the loop returns\<close>
  "scan_json [] depth in_string esc = None"
| "scan_json (ch # rest) depth in_string esc =
     (let in_string = (if ch = CHR 0x22 \<and> \<not> esc then \<not> in_string else in_string);
          esc = (ch = CHR 0x5C \<and> \<not> esc)
      in if in_string then map_option Suc (scan_json rest depth in_string esc)
         else
          (let depth = (if ch = CHR ''{'' then depth + 1
                        else if ch = CHR ''}'' then depth - 1 else depth)
           in if depth = 0 then Some 1
              else map_option Suc (scan_json rest depth in_string esc)))"

definition find_first_balanced_json :: "string \<Rightarrow> string option" where
  "find_first_balanced_json s =
     (let r = dropWhile (\<lambda>c. c \<noteq> CHR ''{'') s
      in if r = [] then None
         else case scan_json r 0 False False of None \<Rightarrow> None | Some n \<Rightarrow> Some (take n r))"

function strip_commas :: "string \<Rightarrow> string" where
  \<comment> \<open>\<^verbatim>\<open>re.sub(r",\s*(\}|])", r"\1", s)\<close>\<close>
  "strip_commas [] = []"
| "strip_commas (c # cs) =
     (if c = CHR '','' then
        (case lstrip cs of
           [] \<Rightarrow> c # strip_commas cs
         | b # rest \<Rightarrow> if b = CHR ''}'' \<or> b = CHR '']'' then b # strip_commas rest
                      else c # strip_commas cs)
      else c # strip_commas cs)"
  by pat_completeness auto
termination
proof (relation "measure length")
  fix c :: char and cs :: string and b :: char and rest :: string
  assume a: "lstrip cs = b # rest"
  have "length (strip_lead seqs t) \<le> length t" for seqs t
  proof (induction seqs t rule: strip_lead.induct)
    case (1 seqs s)
    show ?case
    proof (cases "find (\<lambda>w. w \<noteq> [] \<and> prefix w s) seqs")
      case None
      then show ?thesis by (simp add: strip_lead.simps [of seqs s])
    next
      case (Some w)
      with 1 have "length (strip_lead seqs (drop (length w) s)) \<le> length (drop (length w) s)"
        by simp
      with Some show ?thesis by (simp add: strip_lead.simps [of seqs s])
    qed
  qed
  from this [of ws_seqs cs] a have "length (b # rest) \<le> length cs"
    by (simp add: lstrip_def)
  then show "(rest, c # cs) \<in> measure length"
    by simp
qed auto

definition attempt_json_load :: "pylib \<Rightarrow> string option \<Rightarrow> pyval option" where
  \<comment> \<open>\<open>None\<close> when the function raises\<close>
  "attempt_json_load lib s0 =
     (case s0 of
        None \<Rightarrow> None
      | Some s \<Rightarrow>
         (case json_loads lib s of
            Some v \<Rightarrow> Some v
          | None \<Rightarrow>
             (case json_loads lib (strip_commas s) of
                Some v \<Rightarrow> Some v
              | None \<Rightarrow>
                 (case find_first_balanced_json s of
                    None \<Rightarrow> None
                  | Some balanced \<Rightarrow>
                     if balanced = [] then None
                     else (case json_loads lib balanced of
                             Some v \<Rightarrow> Some v
                           | None \<Rightarrow> json_loads lib (strip_commas balanced))))))"

definition normalize_shape :: "pyval \<Rightarrow> py_error + pydict" where
  "normalize_shape parsed =
     (case parsed of PDict d \<Rightarrow> Inr (fill_required d) | _ \<Rightarrow> Inl RuntimeError)"

definition simple_heuristic_parse :: "string \<Rightarrow> py_error + pydict" where
  "simple_heuristic_parse user_text =
     (case normalize_shape
             (PDict [(''family_size'', PNone), (''budget_band'', PNone), (''usage'', PList []),
                     (''preferences'', PList []), (''body_type_preference'', PList []),
                     (''other'', PDict [(''heuristic'', PBool True)])]) of
        Inl e \<Rightarrow> Inl e
      | Inr parsed \<Rightarrow> enrich_from_text parsed user_text)"

definition looks_truncated :: "string option \<Rightarrow> bool" where
  "looks_truncated s0 =
     (case s0 of
        None \<Rightarrow> True
      | Some s \<Rightarrow>
         if s = [] then True
         else let check = py_lower s
              in if py_contains check ''finish_reason=max_tokens'' \<or> py_contains check ''max_tokens''
                    \<or> py_contains check ''partial'' then True
                 else if py_contains check ''sdk_http_response'' \<or> py_contains check ''candidates=''
                 then True
                 else if py_len (py_strip s) < 5 then True
                 else False)"

fun lazy_close :: "string \<Rightarrow> string \<Rightarrow> string option" where
  \<comment> \<open>the shortest \<^verbatim>\<open>.*?\}\<close> after which \<^verbatim>\<open>\s*```\<close> matches; the first argument is what
      the group has consumed, reversed\<close>
  "lazy_close acc [] = None"
| "lazy_close acc (c # cs) =
     (if c = CHR ''}'' \<and> prefix [CHR 0x60, CHR 0x60, CHR 0x60] (lstrip cs)
      then Some (rev (c # acc))
      else lazy_close (c # acc) cs)"

definition fence_at :: "string \<Rightarrow> string option" where
  \<comment> \<open>a match of \<^verbatim>\<open>```(?:json)?\s*(\{.*?\})\s*```\<close> that starts at the head: its group\<close>
  "fence_at s =
     (if prefix [CHR 0x60, CHR 0x60, CHR 0x60] s then
        (let r = drop 3 s;
             r = (if prefix ''json'' r then drop 4 r else r)
         in case lstrip r of
              [] \<Rightarrow> None
            | c # body \<Rightarrow> if c = CHR ''{'' then lazy_close [c] body else None)
      else None)"

fun fence_search :: "string \<Rightarrow> string option" where
  \<comment> \<open>\<^verbatim>\<open>_JSON_FENCE_RE.search(raw)\<close>, then \<^verbatim>\<open>group(1)\<close>\<close>
  "fence_search [] = None"
| "fence_search (c # cs) =
     (case fence_at (c # cs) of Some g \<Rightarrow> Some g | None \<Rightarrow> fence_search cs)"

definition heuristic_or_raise :: "string option \<Rightarrow> string \<Rightarrow> py_error + pydict" where
  \<comment> \<open>both \<^verbatim>\<open>except\<close> handlers of \<^verbatim>\<open>parse_user_needs\<close>\<close>
  "heuristic_or_raise raw user_text =
     (if looks_truncated raw then simple_heuristic_parse user_text else Inl RuntimeError)"

definition parse_user_needs :: "pylib \<Rightarrow> string option \<Rightarrow> string option \<Rightarrow> string
     \<Rightarrow> py_error + pydict" where
  \<comment> \<open>\<open>reply1\<close> and \<open>reply2\<close> are what \<^verbatim>\<open>chat_completion\<close> returns for the strict request and
      for the retry (\<open>None\<close> also when the call raises)\<close>
  "parse_user_needs lib reply1 reply2 user_text =
     (let raw = (if looks_truncated reply1 then reply2 else reply1)
      in case raw of
           None \<Rightarrow> simple_heuristic_parse user_text
         | Some rawtext \<Rightarrow>
            if rawtext = [] then simple_heuristic_parse user_text
            else
             (let json_text = (case fence_search rawtext of
                                 Some g \<Rightarrow> Some g
                               | None \<Rightarrow> find_first_balanced_json rawtext)
              in case json_text of
                   None \<Rightarrow>
                     (case attempt_json_load lib (Some rawtext) of
                        None \<Rightarrow> heuristic_or_raise raw user_text
                      | Some (PDict d) \<Rightarrow>
                          (case enrich_from_text (fill_required d) user_text of
                             Inl e \<Rightarrow> heuristic_or_raise raw user_text
                           | Inr parsed \<Rightarrow> Inr parsed)
                      | Some _ \<Rightarrow> heuristic_or_raise raw user_text)
                 | Some jt \<Rightarrow>
                     (case attempt_json_load lib (Some jt) of
                        None \<Rightarrow> heuristic_or_raise raw user_text
                      | Some parsed \<Rightarrow>
                         (case normalize_shape parsed of
                            Inl e \<Rightarrow> Inl e
                          | Inr parsed \<Rightarrow> enrich_from_text parsed user_text))))"

section \<open>Notions used in the statements\<close>

definition match_shape :: "pydict \<Rightarrow> bool" where
  \<comment> \<open>the dict that the first loop of \<^verbatim>\<open>score_candidates\<close> appends\<close>
  "match_shape m = (\<exists>i nm sc iu pb bt sp.
      m = [(''id'', i), (''name'', nm), (''score'', PInt sc), (''reasons'', PList []),
           (''image_url'', iu), (''price_band'', pb), (''body_type'', bt), (''specs'', sp)]
      \<and> 0 \<le> sc \<and> sc \<le> 100)"

definition clear_reasons :: "pydict \<Rightarrow> pydict" where
  \<comment> \<open>a match as it was before its reasons were assigned\<close>
  "clear_reasons m = AList.update ''reasons'' (PList []) m"

definition reason_entry :: "pylib \<Rightarrow> pyval list \<Rightarrow> string \<Rightarrow> string \<Rightarrow> bool" where
  \<comment> \<open>\<open>k\<close> and \<open>v\<close> are the id and the reason of an object of the reply, as the loop stores them\<close>
  "reason_entry lib objs k v =
     (\<exists>d i r. PDict d \<in> set objs \<and> map_of d ''id'' = Some i \<and> map_of d ''reason'' = Some (PStr r)
        \<and> k = py_str lib i \<and> py_strip r \<noteq> [] \<and> v = clean_reason (py_strip r))"

fun no_space :: "string \<Rightarrow> bool" where
  \<comment> \<open>no whitespace character occurs in the text\<close>
  "no_space [] = True"
| "no_space (c # cs) = (space_at (c # cs) = None \<and> no_space cs)"

definition open_end :: "string \<Rightarrow> bool" where
  \<comment> \<open>the text does not end in a whitespace character\<close>
  "open_end s = (\<forall>q\<in>set ws_seqs. \<not> suffix q s)"

definition required_keys :: "string list" where
  "required_keys = [''family_size'', ''budget_band'', ''usage'', ''preferences'',
                    ''body_type_preference'', ''other'']"

definition six_keys :: "pydict \<Rightarrow> bool" where
  \<comment> \<open>all six fields of an intent are present\<close>
  "six_keys d = list_all (\<lambda>k. map_of d k \<noteq> None) required_keys"

definition is_list :: "pyval \<Rightarrow> bool" where
  "is_list v = (case v of PList _ \<Rightarrow> True | _ \<Rightarrow> False)"

definition list_fields_ok :: "pydict \<Rightarrow> bool" where
  \<comment> \<open>the list-valued fields that a decoded object has are lists\<close>
  "list_fields_ok d =
     list_all (\<lambda>k. case map_of d k of None \<Rightarrow> True | Some v \<Rightarrow> is_list v)
       [''usage'', ''preferences'', ''body_type_preference'']"

definition well_shaped :: "pydict \<Rightarrow> bool" where
  "well_shaped d = (six_keys d \<and> is_list (dget d ''usage'') \<and> is_list (dget d ''preferences'')
                     \<and> is_list (dget d ''body_type_preference''))"

definition extracted :: "pylib \<Rightarrow> string \<Rightarrow> pyval option" where
  \<comment> \<open>the JSON value that \<^verbatim>\<open>parse_user_needs\<close> decodes from a reply: from the fenced or
      balanced part when there is one, else from the whole reply; \<open>None\<close> when decoding raises\<close>
  "extracted lib raw =
     (case (case fence_search raw of Some g \<Rightarrow> Some g | None \<Rightarrow> find_first_balanced_json raw) of
        None \<Rightarrow> attempt_json_load lib (Some raw)
      | Some jt \<Rightarrow> attempt_json_load lib (Some jt))"

definition is_dict :: "pyval \<Rightarrow> bool" where
  "is_dict v = (case v of PDict _ \<Rightarrow> True | _ \<Rightarrow> False)"

definition scenario_text :: string where
  "scenario_text = ''I need a small family car for daily city commuting, budget around 5 lakhs''"

subsection \<open>The balanced object, stated on positions\<close>

text \<open>
  The statement of what \<^verbatim>\<open>_find_first_balanced_json\<close> returns, in terms of the positions of
  the text \<open>r\<close> that starts at the first brace: a character is escaped when an unescaped
  backslash precedes it, a string delimiter is an unescaped double quote, a position is inside
  a string literal when an odd number of delimiters precede it, and the depth after \<open>n\<close>
  characters counts the braces outside the literals. The matching brace is the first position
  where the depth is back at zero.
\<close>

fun escaped :: "string \<Rightarrow> nat \<Rightarrow> bool" where
  "escaped r 0 = False"
| "escaped r (Suc i) = (r ! i = CHR 0x5C \<and> \<not> escaped r i)"

definition is_delimiter :: "string \<Rightarrow> nat \<Rightarrow> bool" where
  "is_delimiter r i = (r ! i = CHR 0x22 \<and> \<not> escaped r i)"

definition quotes_upto :: "string \<Rightarrow> nat \<Rightarrow> nat" where
  "quotes_upto r n = length (filter (is_delimiter r) [0..<n])"

definition inside_string :: "string \<Rightarrow> nat \<Rightarrow> bool" where
  "inside_string r i = odd (quotes_upto r i)"

definition brace_step :: "string \<Rightarrow> nat \<Rightarrow> int" where
  "brace_step r i =
     (if inside_string r i then 0
      else if r ! i = CHR ''{'' then 1 else if r ! i = CHR ''}'' then - 1 else 0)"

definition depth_after :: "string \<Rightarrow> nat \<Rightarrow> int" where
  "depth_after r n = sum_list (map (brace_step r) [0..<n])"

definition matching_close :: "string \<Rightarrow> nat option" where
  "matching_close r = find (\<lambda>n. depth_after r n = 0) [1..<Suc (length r)]"

definition balanced_spec :: "string \<Rightarrow> string option" where
  "balanced_spec s =
     (let r = dropWhile (\<lambda>c. c \<noteq> CHR ''{'') s
      in map_option (\<lambda>n. take n r) (matching_close r))"

subsection \<open>Example inputs\<close>

definition example_reply :: string where
  \<open>example_reply = ''[{"id": "zzz", "reason": "Great car"}]''\<close>

definition example_object :: string where
  \<open>example_object = ''{"usage": ["city"]}''\<close>

definition example_null_usage :: string where
  \<open>example_null_usage = ''{"usage": null}''\<close>

definition short_reply :: string where
  \<comment> \<open>the two characters U+306F U+3044, six bytes\<close>
  "short_reply = [CHR 0xE3, CHR 0x81, CHR 0xAF, CHR 0xE3, CHR 0x81, CHR 0x84]"

definition example_json :: "(string \<times> pyval) list" where
  \<comment> \<open>the JSON texts of the examples with the values \<^verbatim>\<open>json.loads\<close> gives them\<close>
  "example_json =
     [(example_reply, PList [PDict [(''id'', PStr ''zzz''), (''reason'', PStr ''Great car'')]]),
      (example_object, PDict [(''usage'', PList [PStr ''city''])]),
      (example_null_usage, PDict [(''usage'', PNone)])]"

definition example_lib :: pylib where
  \<comment> \<open>the library at the texts of the examples: the other texts they decode are no JSON,
      and they convert no number from text and no float or container to text\<close>
  "example_lib = \<lparr>json_loads = map_of example_json, repr_other = (\<lambda>v. []),
                   int_of_text = (\<lambda>s. None), float_of_text = (\<lambda>s. None)\<rparr>"

definition example_parsed :: pydict where
  "example_parsed = [(''family_size'', PInt 4), (''budget_band'', PStr ''low''),
                     (''usage'', PList [PStr ''offroad'', PStr ''family''])]"

definition example_persona :: pydict where
  "example_persona = [(''label'', PStr ''Family Driver''),
                      (''primary_needs'', PList [PStr ''space'', PStr ''safety''])]"

definition example_candidates :: "pyval list" where
  "example_candidates =
     [PDict [(''id'', PStr ''a1''), (''score'', PFloat (2 / 5)),
             (''metadata'', PDict [(''body_type'', PStr ''Sedan''), (''year'', PInt 2023)])],
      PDict [(''id'', PStr ''b2''), (''score'', PFloat (3 / 5)),
             (''metadata'', PDict [(''body_type'', PStr ''SUV''), (''seats'', PInt 7),
                                   (''price_band'', PStr ''low''), (''fuel'', PStr ''Diesel'')])],
      PDict [(''id'', PStr ''c3''), (''score'', PFloat (2 / 5)),
             (''metadata'', PDict [(''body_type'', PStr ''Sedan''), (''year'', PInt 2023)])]]"

definition example_match :: pydict where
  "example_match = [(''id'', PStr ''a1''), (''name'', PStr ''a1''), (''score'', PInt 57)]"

definition example_sentence :: string where
  "example_sentence =
     ''Offers practical space for family use, keeps your family'' @ r_quote @ ''s safety in mind.''"

definition scenario_intent :: pydict where
  "scenario_intent =
     [(''family_size'', PInt 3), (''budget_band'', PNone), (''usage'', PList [PStr ''family'']),
      (''preferences'', PList []), (''body_type_preference'', PList []),
      (''other'', PDict [(''heuristic'', PBool True)])]"

definition scanner_example :: string where
  \<open>scanner_example = ''noise {"a": "}{", "b": {"c": 1}} tail }''\<close>

section \<open>Properties of the scorer\<close>

text \<open>
  C4. For every raw similarity value the semantic sub-score is 0 when the value is
  negative, 100 / (1 + s) when it exceeds 2, and 100 * min s 1 otherwise; it always lies
  between 0 and 100.
\<close>

theorem normalize_similarity_cases:
  "normalize_similarity s =
     (if s < 0 then 0 else if 2 < s then 100 * (1 / (1 + s)) else 100 * min s 1)
   \<and> 0 \<le> normalize_similarity s \<and> normalize_similarity s \<le> 100"
proof -
  have neg: "s < 0 \<Longrightarrow> normalize_similarity s = 0"
    by (simp add: normalize_similarity_def)
  have big: "2 < s \<Longrightarrow> normalize_similarity s = 100 * (1 / (1 + s))"
  proof -
    assume h: "2 < s"
    then have "1 / (1 + s) \<le> 1" "0 \<le> 1 / (1 + s)"
      by (simp_all add: field_simps)
    with h show ?thesis
      by (simp add: normalize_similarity_def Let_def min_def max_def)
  qed
  have mid: "\<not> s < 0 \<Longrightarrow> \<not> 2 < s \<Longrightarrow> normalize_similarity s = 100 * min s 1"
    by (simp add: normalize_similarity_def Let_def min_def max_def)
  have rng: "0 \<le> normalize_similarity s \<and> normalize_similarity s \<le> 100"
    by (simp add: normalize_similarity_def Let_def min_def max_def)
  from neg big mid rng show ?thesis
    by simp
qed

theorem normalize_similarity_cases_witness:
  "normalize_similarity (- 1) = 0 \<and> normalize_similarity 4 = 20
   \<and> normalize_similarity (3 / 2) = 100 \<and> normalize_similarity (1 / 4) = 25"
  using normalize_similarity_cases [of "- 1"] normalize_similarity_cases [of 4]
    normalize_similarity_cases [of "3 / 2"] normalize_similarity_cases [of "1 / 4"]
  by simp

text \<open>
  C3. The persona-match sub-score is documented to lie between 0 and 100 with the usage
  alignment counted as one check. With the usage tags \<open>offroad\<close> and \<open>family\<close> and the
  body type \<open>suv\<close> two alignment rules fire: each adds one to the satisfied checks, the
  applicable checks grow by one only, and the sub-score is 200.
\<close>

theorem persona_match_score_above_100:
  "persona_match_score lib [(''usage'', PList [PStr ''offroad'', PStr ''family''])]
     [(''body_type'', PStr ''suv'')] = Inr 200"
  by (simp add: persona_match_score_def dget_def dget_default_def py_or_def
      str_or_empty_lower_def lower_char_def any_in_def Let_def)

subsection \<open>Scores and ranking\<close>

lemma py_round_cases:
  "py_round x = \<lfloor>x\<rfloor> \<or> (py_round x = \<lfloor>x\<rfloor> + 1 \<and> 1 / 2 \<le> x - of_int \<lfloor>x\<rfloor>)"
  by (auto simp: py_round_def Let_def)

lemma py_round_bounds:
  assumes "0 \<le> x" "x \<le> 100"
  shows "0 \<le> py_round x \<and> py_round x \<le> 100"
proof -
  define f where "f = \<lfloor>x\<rfloor>"
  have f0: "0 \<le> f" unfolding f_def using assms(1) by simp
  have f1: "f \<le> 100" unfolding f_def using assms(2) by (simp add: floor_le_iff)
  have half: "1 / 2 \<le> x - of_int f \<Longrightarrow> f \<noteq> 100"
  proof
    assume h: "1 / 2 \<le> x - of_int f" and e: "f = 100"
    from h e have "100 + 1 / 2 \<le> x" by simp
    with assms(2) show False by simp
  qed
  from py_round_cases [of x]
  have "py_round x = f \<or> (py_round x = f + 1 \<and> 1 / 2 \<le> x - of_int f)"
    unfolding f_def .
  then show ?thesis
  proof
    assume "py_round x = f"
    with f0 f1 show ?thesis by linarith
  next
    assume a: "py_round x = f + 1 \<and> 1 / 2 \<le> x - of_int f"
    then have "f \<noteq> 100" using half by blast
    with f0 f1 a show ?thesis by linarith
  qed
qed

lemma final_score_bounds: "0 \<le> final_score a b c \<and> final_score a b c \<le> 100"
  unfolding final_score_def Let_def
  by (rule py_round_bounds) simp_all

lemma score_one_shape: "score_one lib parsed c = Inr m \<Longrightarrow> match_shape m"
  unfolding score_one_def match_shape_def Let_def
  using final_score_bounds
  by (auto split: sum.splits)

lemma score_all_shape:
  "score_all lib parsed cs = Inr ms \<Longrightarrow> list_all match_shape ms \<and> length ms = length cs"
  by (induction cs arbitrary: ms) (auto split: sum.splits dest: score_one_shape)

lemma shape_update_reasons:
  "match_shape r \<Longrightarrow>
     match_score (AList.update ''reasons'' v r) = match_score r
     \<and> clear_reasons (AList.update ''reasons'' v r) = r
     \<and> dget (AList.update ''reasons'' v r) ''reasons'' = v
     \<and> dget (AList.update ''reasons'' v r) ''id'' = dget r ''id''
     \<and> map_of (AList.update ''reasons'' v r) ''metadata'' = None
     \<and> dget r ''metadata'' = PNone
     \<and> dget r ''score'' = PInt (match_score r)
     \<and> 0 \<le> match_score r \<and> match_score r \<le> 100"
  by (auto simp: match_shape_def match_score_def clear_reasons_def dget_def)

lemma attach_reason_upd:
  "attach_reason lib u p rs r = Inr m \<Longrightarrow> \<exists>s. m = AList.update ''reasons'' (PList [PStr s]) r"
  by (auto simp: attach_reason_def Let_def split: option.splits sum.splits)

lemma attach_all_rel:
  "attach_all lib u p rs tops = Inr ms \<Longrightarrow>
     list_all2 (\<lambda>r m. \<exists>s. m = AList.update ''reasons'' (PList [PStr s]) r) tops ms"
  by (induction tops arbitrary: ms) (auto split: sum.splits dest: attach_reason_upd)

lemma attach_all_keeps:
  assumes "attach_all lib u p rs tops = Inr ms" "list_all match_shape tops"
  shows "map clear_reasons ms = tops \<and> map match_score ms = map match_score tops
         \<and> (\<forall>m\<in>set ms. 0 \<le> match_score m \<and> match_score m \<le> 100
                \<and> dget m ''score'' = PInt (match_score m))"
proof -
  from attach_all_rel [OF assms(1)] assms(2) show ?thesis
  proof (induction tops ms rule: list_all2_induct)
    case Nil
    then show ?case by simp
  next
    case (Cons r rs' m ms')
    then obtain s where m: "m = AList.update ''reasons'' (PList [PStr s]) r" by blast
    from Cons have sh: "match_shape r" by simp
    have sc: "dget m ''score'' = PInt (match_score m)"
      using sh unfolding m by (auto simp: match_shape_def match_score_def dget_def)
    from Cons shape_update_reasons [OF sh, of "PList [PStr s]"] m sc show ?case by simp
  qed
qed

lemma filter_take_prefix: "prefix (filter P (take n xs)) (filter P xs)"
proof -
  have "filter P xs = filter P (take n xs) @ filter P (drop n xs)"
    by (metis append_take_drop_id filter_append)
  then show ?thesis by (simp add: prefix_def)
qed

lemma slice_to_take: "0 \<le> k \<Longrightarrow> py_slice_to k xs = take (nat k) xs"
  by (simp add: py_slice_to_def)

lemma sort_desc_props:
  "sorted_wrt (\<lambda>a b. match_score b \<le> match_score a) (sort_desc xs)
   \<and> filter (\<lambda>m. match_score m = k) (sort_desc xs) = filter (\<lambda>m. match_score m = k) xs
   \<and> set (sort_desc xs) = set xs \<and> length (sort_desc xs) = length xs"
proof -
  have "sorted (map (\<lambda>m. - match_score m) (sort_desc xs))"
    unfolding sort_desc_def by (rule sorted_sort_key)
  then have a: "sorted_wrt (\<lambda>a b. match_score b \<le> match_score a) (sort_desc xs)"
    by (simp add: sorted_map sorted_wrt_iff_nth_less)
  have "filter (\<lambda>m. - match_score m = - k) (sort_desc xs)
          = filter (\<lambda>m. - match_score m = - k) xs"
    unfolding sort_desc_def by (rule sort_key_stable)
  then have b: "filter (\<lambda>m. match_score m = k) (sort_desc xs)
                  = filter (\<lambda>m. match_score m = k) xs"
    by simp
  show ?thesis using a b by (simp add: sort_desc_def)
qed

lemma ranked_top_shape:
  assumes "score_all lib parsed candidates = Inr results"
  shows "list_all match_shape (py_slice_to top_k (sort_desc results))"
proof -
  from score_all_shape [OF assms] have "list_all match_shape results" by simp
  then have "list_all match_shape (sort_desc results)"
    using sort_desc_props [of results] by (simp add: list_all_iff)
  then show ?thesis
    by (auto simp: py_slice_to_def list_all_iff dest: in_set_takeD)
qed

text \<open>
  C1 fails for a negative \<open>top_k\<close>: the slice \<^verbatim>\<open>results[:top_k]\<close> then drops the last
  candidates only, and the list returned is longer than \<open>top_k\<close>.
\<close>

theorem score_candidates_negative_top_k:
  "(case score_candidates example_lib None example_parsed example_persona example_candidates
           ''family car'' (- 1) of
      Inl e \<Rightarrow> False
    | Inr ms \<Rightarrow> length ms = 2 \<and> \<not> int (length ms) \<le> - 1)"
  by code_simp

text \<open>
  C1, amended. For a \<open>top_k\<close> that is not negative, the list returned by
  \<^verbatim>\<open>score_candidates\<close> has at most \<open>top_k\<close> elements, its scores do not increase along the
  list, every score is an integer from 0 to 100, and the matches of one score stand in the
  order of the candidates they were made from (a prefix of them survives the cut).
\<close>

theorem score_candidates_ranked:
  assumes "0 \<le> top_k"
    and "score_candidates lib reply parsed persona candidates user_text top_k = Inr ms"
  shows "int (length ms) \<le> top_k
       \<and> sorted_wrt (\<lambda>a b. match_score b \<le> match_score a) ms
       \<and> (\<forall>m\<in>set ms. dget m ''score'' = PInt (match_score m)
              \<and> 0 \<le> match_score m \<and> match_score m \<le> 100)
       \<and> (\<exists>results. score_all lib parsed candidates = Inr results
              \<and> length results = length candidates
              \<and> (\<forall>k. prefix (filter (\<lambda>m. match_score m = k) (map clear_reasons ms))
                             (filter (\<lambda>m. match_score m = k) results)))"
proof -
  from assms(2) obtain results rs where
    res: "score_all lib parsed candidates = Inr results" and
    att: "attach_all lib user_text persona rs (py_slice_to top_k (sort_desc results)) = Inr ms"
    by (auto simp: score_candidates_def Let_def split: sum.splits)
  let ?cut = "take (nat top_k) (sort_desc results)"
  from att assms(1) have att': "attach_all lib user_text persona rs ?cut = Inr ms"
    by (simp add: slice_to_take)
  from score_all_shape [OF res] have len: "length results = length candidates" by simp
  from ranked_top_shape [OF res, of top_k] assms(1) have sht: "list_all match_shape ?cut"
    by (simp add: slice_to_take)
  note keep = attach_all_keeps [OF att' sht]
  have l: "int (length ms) \<le> top_k"
  proof -
    from keep have "length (map clear_reasons ms) = length ?cut" by simp
    then have "length ms \<le> nat top_k" by simp
    with assms(1) show ?thesis by linarith
  qed
  have srt: "sorted_wrt (\<lambda>a b. match_score b \<le> match_score a) ?cut"
    using sort_desc_props [of results] by (simp add: sorted_wrt_take)
  have s: "sorted_wrt (\<lambda>a b. match_score b \<le> match_score a) ms"
  proof -
    from srt have "sorted_wrt (\<lambda>a b. b \<le> a) (map match_score ?cut)"
      by (simp add: sorted_wrt_map)
    with keep have "sorted_wrt (\<lambda>a b. b \<le> a) (map match_score ms)" by simp
    then show ?thesis by (simp add: sorted_wrt_map)
  qed
  have st: "\<forall>k. prefix (filter (\<lambda>m. match_score m = k) (map clear_reasons ms))
                             (filter (\<lambda>m. match_score m = k) results)"
  proof
    fix k
    have "prefix (filter (\<lambda>m. match_score m = k) ?cut)
            (filter (\<lambda>m. match_score m = k) (sort_desc results))"
      by (rule filter_take_prefix)
    with keep sort_desc_props [of results k] show
      "prefix (filter (\<lambda>m. match_score m = k) (map clear_reasons ms))
                             (filter (\<lambda>m. match_score m = k) results)" by simp
  qed
  from l s keep res len st show ?thesis by blast
qed

theorem score_candidates_ranked_witness:
  "(0::int) \<le> 2
   \<and> (case score_candidates example_lib None example_parsed example_persona example_candidates
             ''family car'' 2 of
        Inl e \<Rightarrow> False
      | Inr ms \<Rightarrow> map match_score ms = [100, 57]
                 \<and> map (\<lambda>m. dget m ''id'') ms = [PStr ''b2'', PStr ''a1'']
                 \<and> int (length ms) \<le> 2
                 \<and> sorted_wrt (\<lambda>a b. match_score b \<le> match_score a) ms)"
proof -
  have "(case score_candidates example_lib None example_parsed example_persona
                example_candidates ''family car'' 2 of
           Inl e \<Rightarrow> False
         | Inr ms \<Rightarrow> map match_score ms = [100, 57]
                    \<and> map (\<lambda>m. dget m ''id'') ms = [PStr ''b2'', PStr ''a1''])"
    by code_simp
  then obtain ms where
    run: "score_candidates example_lib None example_parsed example_persona example_candidates
            ''family car'' 2 = Inr ms"
    and sc: "map match_score ms = [100, 57]"
      "map (\<lambda>m. dget m ''id'') ms = [PStr ''b2'', PStr ''a1'']"
    by (auto split: sum.splits)
  have nn: "(0::int) \<le> 2" by simp
  from score_candidates_ranked [OF nn run] run sc show ?thesis by simp
qed

subsection \<open>Entries of the justification batch\<close>

lemma clean_reason_terminal: "ends_terminal (clean_reason r) \<and> clean_reason r \<noteq> []"
  by (auto simp: clean_reason_def ends_terminal_def Let_def)

text \<open>
  Words are cut at the whitespace characters, some of which take several bytes. A blank can
  only be the first byte of such a character and a dot is in none, so joining words with
  blanks and appending a dot leave the words as they are.
\<close>

lemma ws_seqs_bytes:
  "q \<in> set ws_seqs \<Longrightarrow> q \<noteq> [] \<and> CHR '' '' \<notin> set (tl q) \<and> CHR '' '' \<notin> set (butlast q)
      \<and> CHR ''.'' \<notin> set q"
  by (auto simp: ws_seqs_def)

lemma space_at_None: "space_at s = None \<longleftrightarrow> (\<forall>q\<in>set ws_seqs. \<not> prefix q s)"
  using ws_seqs_bytes by (auto simp: space_at_def find_None_iff)

lemma space_at_Some: "space_at s = Some w \<Longrightarrow> w \<in> set ws_seqs \<and> w \<noteq> [] \<and> prefix w s"
  by (auto simp: space_at_def find_Some_iff)

lemma space_at_blank: "space_at (CHR '' '' # r) = Some '' ''"
  by (simp add: space_at_def ws_seqs_def)

lemma space_at_dot: "space_at (s @ ''.'') = space_at s"
proof -
  have "(q \<noteq> [] \<and> prefix q (s @ ''.'')) = (q \<noteq> [] \<and> prefix q s)" if "q \<in> set ws_seqs" for q
    using ws_seqs_bytes [OF that] by (auto simp: prefix_snoc)
  then show ?thesis
    unfolding space_at_def by (intro find_cong) auto
qed

lemma space_at_before_blank:
  assumes "space_at x = None" "x \<noteq> []"
  shows "space_at (x @ CHR '' '' # r) = None"
  unfolding space_at_None
proof
  fix q assume q: "q \<in> set ws_seqs"
  show "\<not> prefix q (x @ CHR '' '' # r)"
  proof
    assume "prefix q (x @ CHR '' '' # r)"
    then have "prefix q x \<or> (\<exists>us. q = x @ us \<and> prefix us (CHR '' '' # r))"
      by (simp add: prefix_append)
    then show False
    proof (elim disjE exE conjE)
      assume "prefix q x"
      with assms(1) q show False by (simp add: space_at_None)
    next
      fix us assume us: "q = x @ us" "prefix us (CHR '' '' # r)"
      show False
      proof (cases us)
        case Nil
        with us assms(1) q show False by (auto simp: space_at_None)
      next
        case (Cons u us')
        with us have "u = CHR '' ''" by simp
        with Cons us assms(2) have "CHR '' '' \<in> set (tl q)" by (cases x) auto
        with ws_seqs_bytes [OF q] show False by simp
      qed
    qed
  qed
qed

lemma no_space_iff: "no_space w \<longleftrightarrow> (\<forall>x. x \<noteq> [] \<and> suffix x w \<longrightarrow> space_at x = None)"
  by (induction w) (auto simp: suffix_Cons)

lemma space_at_mono: "space_at (x @ s) = None \<Longrightarrow> space_at x = None"
  by (auto simp: space_at_None)

lemma words_acc_clean:
  "w \<in> set (words_acc s cur)
     \<Longrightarrow> \<forall>x. x \<noteq> [] \<and> suffix x (rev cur) \<longrightarrow> space_at (x @ s) = None
     \<Longrightarrow> w \<noteq> [] \<and> no_space w"
proof (induction s cur rule: words_acc.induct)
  case (1 cur)
  then show ?case by (auto simp: no_space_iff split: if_splits)
next
  case (2 c cs cur)
  have cl: "no_space (rev cur)"
    unfolding no_space_iff using "2.prems"(2) space_at_mono by blast
  show ?case
  proof (cases "space_at (c # cs)")
    case None
    have inv: "\<forall>x. x \<noteq> [] \<and> suffix x (rev (c # cur)) \<longrightarrow> space_at (x @ cs) = None"
    proof (intro allI impI)
      fix x assume x: "x \<noteq> [] \<and> suffix x (rev (c # cur))"
      then obtain y where y: "x = y @ [c]" "suffix y (rev cur)"
        by (cases x rule: rev_cases) auto
      show "space_at (x @ cs) = None"
      proof (cases "y = []")
        case True
        with y None show ?thesis by simp
      next
        case False
        with y "2.prems"(2) show ?thesis by simp
      qed
    qed
    from None "2.prems"(1) have "w \<in> set (words_acc cs (c # cur))" by simp
    from "2.IH"(1) [OF None this inv] show ?thesis .
  next
    case (Some q)
    show ?thesis
    proof (cases "cur = []")
      case True
      with Some "2.prems"(1) have "w \<in> set (words_acc (drop (length q - 1) cs) [])" by simp
      from "2.IH"(2) [OF Some True this] show ?thesis by simp
    next
      case False
      with Some "2.prems"(1)
      have "w = rev cur \<or> w \<in> set (words_acc (drop (length q - 1) cs) [])" by simp
      then show ?thesis
      proof
        assume "w = rev cur"
        with False cl show ?thesis by simp
      next
        assume "w \<in> set (words_acc (drop (length q - 1) cs) [])"
        from "2.IH"(3) [OF Some False this] show ?thesis by simp
      qed
    qed
  qed
qed

lemma py_split_clean: "w \<in> set (py_split s) \<Longrightarrow> w \<noteq> [] \<and> no_space w"
  unfolding py_split_def using words_acc_clean [of w s "[]"] by simp

lemma words_acc_word:
  "no_space w \<Longrightarrow> rest = [] \<or> hd rest = CHR '' ''
     \<Longrightarrow> words_acc (w @ rest) cur = words_acc rest (rev w @ cur)"
proof (induction w arbitrary: cur)
  case Nil
  then show ?case by simp
next
  case (Cons a w)
  from Cons.prems have "space_at ((a # w) @ rest) = None"
    using space_at_before_blank [of "a # w" "tl rest"] by (cases rest) auto
  with Cons show ?case by simp
qed

lemma words_acc_join:
  assumes "\<forall>w\<in>set (w0 # ws). w \<noteq> [] \<and> no_space w"
  shows "words_acc (py_join '' '' (w0 # ws)) cur = (rev cur @ w0) # ws"
  using assms
proof (induction ws arbitrary: w0 cur)
  case Nil
  then show ?case
    using words_acc_word [of w0 "[]" cur] by simp
next
  case (Cons w1 ws)
  have "words_acc (py_join '' '' (w0 # w1 # ws)) cur
          = words_acc ('' '' @ py_join '' '' (w1 # ws)) (rev w0 @ cur)"
    using Cons.prems words_acc_word [of w0 "'' '' @ py_join '' '' (w1 # ws)" cur] by simp
  also have "\<dots> = rev (rev w0 @ cur) # words_acc (py_join '' '' (w1 # ws)) []"
    using Cons.prems by (simp add: space_at_blank)
  also have "words_acc (py_join '' '' (w1 # ws)) [] = (rev [] @ w1) # ws"
    using Cons.prems by (intro Cons.IH) simp
  finally show ?case by simp
qed

lemma py_split_join:
  "\<forall>w\<in>set ws. w \<noteq> [] \<and> no_space w \<Longrightarrow> py_split (py_join '' '' ws) = ws"
proof (cases ws)
  case Nil
  then show ?thesis by (simp add: py_split_def)
next
  case (Cons w0 ws')
  assume "\<forall>w\<in>set ws. w \<noteq> [] \<and> no_space w"
  with Cons words_acc_join [of w0 ws' "[]"] show ?thesis by (simp add: py_split_def)
qed

lemma py_join_last:
  "ws \<noteq> [] \<Longrightarrow> \<exists>pre. py_join '' '' ws = pre @ last ws \<and> (pre = [] \<or> last pre = CHR '' '')"
proof (induction ws rule: induct_list012)
  case 1
  then show ?case by simp
next
  case (2 x)
  then show ?case by simp
next
  case (3 x y ys)
  then obtain pre where "py_join '' '' (y # ys) = pre @ last (y # ys)"
      and "pre = [] \<or> last pre = CHR '' ''" by auto
  then have "py_join '' '' (x # y # ys) = (x @ '' '' @ pre) @ last (x # y # ys)
             \<and> last (x @ '' '' @ pre) = CHR '' ''"
    by auto
  then show ?case by blast
qed

lemma open_end_join:
  assumes "ws \<noteq> []" "last ws \<noteq> []" "no_space (last ws)"
  shows "open_end (py_join '' '' ws)"
  unfolding open_end_def
proof
  fix q assume q: "q \<in> set ws_seqs"
  from py_join_last [OF assms(1)] obtain pre
    where j: "py_join '' '' ws = pre @ last ws" and pre: "pre = [] \<or> last pre = CHR '' ''"
    by blast
  show "\<not> suffix q (py_join '' '' ws)"
  proof
    assume "suffix q (py_join '' '' ws)"
    with j have "suffix q (last ws) \<or> (\<exists>us. q = us @ last ws \<and> suffix us pre)"
      by (simp add: suffix_append)
    then show False
    proof (elim disjE exE conjE)
      assume "suffix q (last ws)"
      moreover from ws_seqs_bytes [OF q] have "q \<noteq> []" by simp
      ultimately have "space_at q = None"
        using assms(3) by (simp add: no_space_iff)
      with q show False by (auto simp: space_at_None)
    next
      fix us assume us: "q = us @ last ws" "suffix us pre"
      show False
      proof (cases "us = []")
        case True
        with us assms(2,3) have "space_at q = None" by (simp add: no_space_iff)
        with q show False by (auto simp: space_at_None)
      next
        case False
        with us(2) pre have "last us = CHR '' ''"
          by (auto simp: suffix_def)
        with False us(1) assms(2) last_in_set [of us] have "CHR '' '' \<in> set (butlast q)"
          by (auto simp: butlast_append)
        with ws_seqs_bytes [OF q] show False by simp
      qed
    qed
  qed
qed

lemma words_acc_snoc:
  "open_end s \<Longrightarrow> (s = [] \<longrightarrow> cur \<noteq> [])
     \<Longrightarrow> length (words_acc (s @ ''.'') cur) = length (words_acc s cur)"
proof (induction s cur rule: words_acc.induct)
  case (1 cur)
  have "space_at ''.'' = None"
    by (simp add: space_at_def ws_seqs_def)
  with 1 show ?case by simp
next
  case (2 c cs cur)
  have dot: "space_at (c # cs @ ''.'') = space_at (c # cs)"
    using space_at_dot [of "c # cs"] by simp
  show ?case
  proof (cases "space_at (c # cs)")
    case None
    from "2.prems"(1) have "open_end cs"
      by (auto simp: open_end_def suffix_Cons)
    with "2.IH"(1) [OF None] have "length (words_acc (cs @ ''.'') (c # cur))
                                  = length (words_acc cs (c # cur))"
      by simp
    with None dot show ?thesis by simp
  next
    case (Some q)
    let ?r = "drop (length q - 1) cs"
    from space_at_Some [OF Some] have q: "q \<in> set ws_seqs" "q \<noteq> []" "prefix q (c # cs)"
      by simp_all
    from q(3) have "length q \<le> length (c # cs)"
      by (rule prefix_length_le)
    then have len: "length q - 1 \<le> length cs"
      by simp
    from q(3) obtain zs where zs: "c # cs = q @ zs"
      by (auto simp: prefix_def)
    from q(2) obtain a q' where aq: "q = a # q'"
      by (cases q) auto
    with zs have "cs = q' @ zs" by simp
    with aq have "?r = zs" by simp
    with zs have cs: "c # cs = q @ ?r" by simp
    have ne: "?r \<noteq> []"
    proof
      assume "?r = []"
      with cs have "suffix q (c # cs)" by simp
      with q(1) "2.prems"(1) show False by (simp add: open_end_def)
    qed
    have "suffix ?r (c # cs)"
      using cs by (metis suffixI)
    with "2.prems"(1) have op: "open_end ?r"
      unfolding open_end_def by (meson suffix_order.trans)
    have ih: "length (words_acc (?r @ ''.'') []) = length (words_acc ?r [])"
    proof (cases "cur = []")
      case True
      from "2.IH"(2) [OF Some True op] ne show ?thesis by simp
    next
      case False
      from "2.IH"(3) [OF Some False op] ne show ?thesis by simp
    qed
    from len have "drop (length q - 1) (cs @ ''.'') = ?r @ ''.''" by simp
    with Some dot ih show ?thesis by simp
  qed
qed

lemma py_split_snoc:
  "s \<noteq> [] \<Longrightarrow> open_end s \<Longrightarrow> length (py_split (s @ ''.'')) = length (py_split s)"
  unfolding py_split_def using words_acc_snoc [of s "[]"] by simp

lemma clean_reason_words:
  assumes "r \<noteq> []" "open_end r"
  shows "length (py_split (clean_reason r)) \<le> 30"
proof -
  define x where "x = (if 30 < length (py_split r) then py_join '' '' (take 30 (py_split r)) else r)"
  have cr: "clean_reason r = (if \<not> ends_terminal x then x @ ''.'' else x)"
    by (simp add: clean_reason_def Let_def x_def)
  have x: "x \<noteq> [] \<and> open_end x \<and> length (py_split x) \<le> 30"
  proof (cases "30 < length (py_split r)")
    case True
    let ?ws = "take 30 (py_split r)"
    have cl: "\<forall>w\<in>set ?ws. w \<noteq> [] \<and> no_space w"
      using py_split_clean by (meson in_set_takeD)
    from True have ne: "?ws \<noteq> []" by auto
    then have lw: "last ?ws \<in> set ?ws" by (rule last_in_set)
    with cl have lne: "last ?ws \<noteq> []" and lsp: "no_space (last ?ws)" by auto
    from py_join_last [OF ne] lne have "py_join '' '' ?ws \<noteq> []" by auto
    moreover from ne lne lsp have "open_end (py_join '' '' ?ws)" by (rule open_end_join)
    moreover have "py_split (py_join '' '' ?ws) = ?ws" using cl by (rule py_split_join)
    ultimately show ?thesis using True by (simp add: x_def)
  next
    case False
    with assms show ?thesis by (simp add: x_def)
  qed
  then show ?thesis
    using py_split_snoc [of x] by (simp add: cr)
qed

lemma strip_lead_done:
  "find (\<lambda>w. w \<noteq> [] \<and> prefix w (strip_lead seqs s)) seqs = None"
proof (induction seqs s rule: strip_lead.induct)
  case (1 seqs s)
  show ?case
  proof (cases "find (\<lambda>w. w \<noteq> [] \<and> prefix w s) seqs")
    case None
    then show ?thesis by (simp add: strip_lead.simps [of seqs s])
  next
    case (Some w)
    with 1 show ?thesis by (simp add: strip_lead.simps [of seqs s])
  qed
qed

lemma py_strip_open: "open_end (py_strip s)"
  unfolding open_end_def
proof
  fix q assume q: "q \<in> set ws_seqs"
  define t where "t = strip_lead (map rev ws_seqs) (rev (lstrip s))"
  have ps: "py_strip s = rev t"
    by (simp add: py_strip_def rstrip_def t_def)
  show "\<not> suffix q (py_strip s)"
  proof
    assume "suffix q (py_strip s)"
    with ps have "prefix (rev q) t" by (simp add: suffix_to_prefix)
    moreover from q have "rev q \<in> set (map rev ws_seqs)" by simp
    moreover from ws_seqs_bytes [OF q] have "rev q \<noteq> []" by simp
    ultimately have "find (\<lambda>w. w \<noteq> [] \<and> prefix w t) (map rev ws_seqs) \<noteq> None"
      unfolding find_None_iff by blast
    with strip_lead_done [of "map rev ws_seqs" "rev (lstrip s)"] show False
      by (simp add: t_def)
  qed
qed

lemma update_entry:
  "(a, b) \<in> set (AList.update k v al) \<Longrightarrow> (a, b) = (k, v) \<or> (a, b) \<in> set al"
  by (induction al) (auto split: if_splits)

lemma add_reason_entry:
  assumes "(k, v) \<in> set (add_reason lib acc obj)"
  shows "(k, v) \<in> set acc \<or> reason_entry lib [obj] k v"
proof (cases obj)
  case (PDict d)
  show ?thesis
  proof (cases "map_of d ''id''")
    case None
    with PDict assms show ?thesis by (simp add: add_reason_def)
  next
    case (Some i)
    show ?thesis
    proof (cases "\<exists>r. map_of d ''reason'' = Some (PStr r) \<and> py_strip r \<noteq> []")
      case True
      then obtain r where r: "map_of d ''reason'' = Some (PStr r)" "py_strip r \<noteq> []" by blast
      with PDict Some assms
      have "(k, v) \<in> set (AList.update (py_str lib i) (clean_reason (py_strip r)) acc)"
        by (simp add: add_reason_def Let_def)
      from update_entry [OF this] show ?thesis
      proof
        assume "(k, v) = (py_str lib i, clean_reason (py_strip r))"
        with PDict Some r have "reason_entry lib [obj] k v"
          unfolding reason_entry_def by auto
        then show ?thesis ..
      next
        assume "(k, v) \<in> set acc"
        then show ?thesis ..
      qed
    next
      case False
      with PDict Some have "add_reason lib acc obj = acc"
        by (auto simp: add_reason_def Let_def split: option.splits pyval.splits)
      with assms show ?thesis by simp
    qed
  qed
qed (use assms in \<open>simp_all add: add_reason_def\<close>)

lemma reason_entry_mono:
  "reason_entry lib xs k v \<Longrightarrow> set xs \<subseteq> set ys \<Longrightarrow> reason_entry lib ys k v"
  unfolding reason_entry_def by blast

lemma foldl_add_reason_entry:
  "(k, v) \<in> set (foldl (add_reason lib) acc objs) \<Longrightarrow> (k, v) \<in> set acc \<or> reason_entry lib objs k v"
proof (induction objs arbitrary: acc)
  case Nil
  then show ?case by simp
next
  case (Cons o1 objs)
  from Cons.prems have "(k, v) \<in> set (foldl (add_reason lib) (add_reason lib acc o1) objs)" by simp
  from Cons.IH [OF this] show ?case
  proof
    assume "(k, v) \<in> set (add_reason lib acc o1)"
    from add_reason_entry [OF this] show ?thesis
    proof
      assume "(k, v) \<in> set acc"
      then show ?thesis ..
    next
      assume "reason_entry lib [o1] k v"
      then have "reason_entry lib (o1 # objs) k v"
        by (rule reason_entry_mono) simp
      then show ?thesis ..
    qed
  next
    assume "reason_entry lib objs k v"
    then have "reason_entry lib (o1 # objs) k v"
      by (rule reason_entry_mono) auto
    then show ?thesis ..
  qed
qed

lemma reason_entry_value:
  assumes "reason_entry lib objs k v"
  shows "v \<noteq> [] \<and> length (py_split v) \<le> 30 \<and> ends_terminal v"
proof -
  from assms obtain r where r: "py_strip r \<noteq> []" and v: "v = clean_reason (py_strip r)"
    unfolding reason_entry_def by blast
  have "open_end (py_strip r)" by (rule py_strip_open)
  with r have "length (py_split (clean_reason (py_strip r))) \<le> 30" by (rule clean_reason_words)
  with clean_reason_terminal [of "py_strip r"] v show ?thesis by simp
qed

lemma generate_reasons_member:
  assumes "generate_reasons_for_top_k lib reply user_text persona top_matches = Inr rs"
    and "(k, v) \<in> set rs"
  shows "\<exists>raw objs. reply = Some raw \<and> reply_data lib raw = Some (PList objs)
           \<and> reason_entry lib objs k v"
proof -
  from assms obtain raw data where r: "reply = Some raw" "reply_data lib raw = Some data"
    and rs: "rs = reasons_of_data lib data"
    by (auto simp: generate_reasons_for_top_k_def split: sum.splits option.splits if_splits)
  from assms(2) rs obtain objs where d: "data = PList objs"
    by (cases data) (auto simp: reasons_of_data_def)
  from assms(2) rs d have "(k, v) \<in> set (foldl (add_reason lib) [] objs)"
    by (simp add: reasons_of_data_def)
  from foldl_add_reason_entry [OF this] r d show ?thesis by simp
qed

text \<open>
  C7 fails as stated: the loop stores a reason under whatever id the reply's object carries
  and never compares it with the ids of the top matches. Here the only top match has the id
  \<open>a1\<close> and the reply names \<open>zzz\<close>.
\<close>

theorem generate_reasons_unknown_id:
  "generate_reasons_for_top_k example_lib (Some example_reply) ''family car'' example_persona
      [PDict example_match] = Inr [(''zzz'', ''Great car.'')]
   \<and> py_str example_lib (dget example_match ''id'') \<noteq> ''zzz''"
  by code_simp

text \<open>
  C7, amended. Every entry of the mapping returned by \<^verbatim>\<open>generate_reasons_for_top_k\<close> is
  well formed: its key is the stringified id of an object of the decoded reply (whether or not
  a top match has that id), and its value is a non-empty reason of at most 30 words that ends
  in \<open>.\<close>, \<open>!\<close> or \<open>?\<close>.
\<close>

theorem generate_reasons_entries:
  assumes "generate_reasons_for_top_k lib reply user_text persona top_matches = Inr rs"
    and "map_of rs k = Some v"
  shows "v \<noteq> [] \<and> length (py_split v) \<le> 30 \<and> ends_terminal v
       \<and> (\<exists>raw objs d i. reply = Some raw \<and> reply_data lib raw = Some (PList objs)
             \<and> PDict d \<in> set objs \<and> map_of d ''id'' = Some i \<and> k = py_str lib i)"
proof -
  from assms(2) have "(k, v) \<in> set rs" by (rule map_of_SomeD)
  from generate_reasons_member [OF assms(1) this] obtain raw objs
    where r: "reply = Some raw" "reply_data lib raw = Some (PList objs)"
      and e: "reason_entry lib objs k v" by blast
  from e obtain d i where "PDict d \<in> set objs" "map_of d ''id'' = Some i" "k = py_str lib i"
    unfolding reason_entry_def by blast
  with r reason_entry_value [OF e] show ?thesis by blast
qed

theorem generate_reasons_entries_witness:
  "generate_reasons_for_top_k example_lib (Some example_reply) ''family car'' example_persona
      [PDict example_match] = Inr [(''zzz'', ''Great car.'')]
   \<and> map_of [(''zzz'', ''Great car.'')] ''zzz'' = Some ''Great car.''
   \<and> ''Great car.'' \<noteq> [] \<and> length (py_split ''Great car.'') \<le> 30 \<and> ends_terminal ''Great car.''"
proof -
  have run: "generate_reasons_for_top_k example_lib (Some example_reply) ''family car''
               example_persona [PDict example_match] = Inr [(''zzz'', ''Great car.'')]"
    by code_simp
  have mo: "map_of [(''zzz'', ''Great car.'')] ''zzz'' = Some ''Great car.''" by simp
  from generate_reasons_entries [OF run mo] run mo show ?thesis by blast
qed

subsection \<open>The fallback sentence\<close>

lemma finish_sentence_nonempty: "finish_sentence bits \<noteq> []"
  by (simp add: finish_sentence_def generic_sentence_def Let_def)

lemma fallback_nonempty: "fallback_reason_from_rules lib u p meta = Inr s \<Longrightarrow> s \<noteq> []"
  unfolding fallback_reason_from_rules_def
  using finish_sentence_nonempty
  by (auto split: sum.splits)

lemma attach_all_member:
  "attach_all lib u p rs tops = Inr ms \<Longrightarrow> m \<in> set ms
     \<Longrightarrow> \<exists>r\<in>set tops. attach_reason lib u p rs r = Inr m"
  by (induction tops arbitrary: ms) (auto split: sum.splits)

lemma attach_reason_fallback:
  assumes "attach_reason lib u p rs r = Inr m" "match_shape r"
    and "map_of rs (py_str lib (dget m ''id'')) = None"
  shows "\<exists>s. fallback_reason_from_rules lib u p (PDict []) = Inr s
           \<and> m = AList.update ''reasons'' (PList [PStr s]) r"
proof -
  from attach_reason_upd [OF assms(1)] obtain s0
    where "m = AList.update ''reasons'' (PList [PStr s0]) r" by blast
  with shape_update_reasons [OF assms(2), of "PList [PStr s0]"]
  have id: "dget m ''id'' = dget r ''id''" and md: "dget r ''metadata'' = PNone" by simp_all
  from assms(3) id have none: "map_of rs (py_str lib (dget r ''id'')) = None" by simp
  from assms(1) none md show ?thesis
    by (auto simp: attach_reason_def Let_def py_or_def split: sum.splits)
qed

lemma attach_reason_given:
  assumes "attach_reason lib u p rs r = Inr m" "match_shape r"
    and "map_of rs (py_str lib (dget m ''id'')) = Some v"
  shows "m = AList.update ''reasons'' (PList [PStr v]) r"
proof -
  from attach_reason_upd [OF assms(1)] obtain s0
    where "m = AList.update ''reasons'' (PList [PStr s0]) r" by blast
  with shape_update_reasons [OF assms(2), of "PList [PStr s0]"]
  have id: "dget m ''id'' = dget r ''id''" by simp
  from assms(3) id have "map_of rs (py_str lib (dget r ''id'')) = Some v" by simp
  with assms(1) show ?thesis
    by (auto simp: attach_reason_def Let_def split: sum.splits)
qed

lemma run_parts:
  assumes "score_candidates lib reply parsed persona candidates user_text top_k = Inr ms"
    and "score_all lib parsed candidates = Inr results"
    and "generate_reasons_for_top_k lib reply user_text persona
           (map PDict (py_slice_to top_k (sort_desc results))) = Inr rs"
    and "m \<in> set ms"
  shows "\<exists>r. match_shape r \<and> attach_reason lib user_text persona rs r = Inr m"
proof -
  from assms(1,2,3)
  have att: "attach_all lib user_text persona rs (py_slice_to top_k (sort_desc results)) = Inr ms"
    by (simp add: score_candidates_def Let_def)
  from attach_all_member [OF att assms(4)] obtain r
    where r: "r \<in> set (py_slice_to top_k (sort_desc results))"
      and a: "attach_reason lib user_text persona rs r = Inr m" by blast
  from ranked_top_shape [OF assms(2), of top_k] r have "match_shape r"
    by (simp add: list_all_iff)
  with a show ?thesis by blast
qed

lemma reasons_values_nonempty:
  assumes "generate_reasons_for_top_k lib reply user_text persona tm = Inr rs"
    and "map_of rs k = Some v"
  shows "v \<noteq> []"
proof -
  from assms(2) have "(k, v) \<in> set rs" by (rule map_of_SomeD)
  from generate_reasons_member [OF assms(1) this] reason_entry_value show ?thesis by blast
qed

lemma example_run:
  "(case score_candidates example_lib None example_parsed example_persona example_candidates
             ''family car'' 2 of
        Inl e \<Rightarrow> False
      | Inr ms \<Rightarrow> map (\<lambda>m. dget m ''reasons'') ms
                    = [PList [PStr example_sentence], PList [PStr example_sentence]])"
  by code_simp

lemma example_fallback:
  "fallback_reason_from_rules example_lib ''family car'' example_persona (PDict [])
     = Inr example_sentence"
  by code_simp

text \<open>
  For a persona as \<^verbatim>\<open>build_persona\<close> makes it (a string label, a list of need tags) the
  fallback at the empty metadata mapping has no failure path.
\<close>

lemma fallback_total:
  assumes "dget persona ''label'' = PStr l" "map_of persona ''label'' \<noteq> None"
    and "dget persona ''primary_needs'' = PList ns" "list_all hashable ns"
  shows "\<exists>s. fallback_reason_from_rules lib u persona (PDict []) = Inr s \<and> s \<noteq> []"
proof -
  have ll: "label_lower persona = Inr (py_lower l)"
    using assms(1,2) by (auto simp: label_lower_def dget_default_def dget_def split: option.splits)
  have it: "py_iter (py_or (dget persona ''primary_needs'') (PList [])) = Inr ns"
    using assms(3) by (cases ns) (simp_all add: py_or_def)
  have "\<exists>bits. fallback_bits lib persona (PDict []) = Inr bits"
    unfolding fallback_bits_def it
    using assms(4) ll
    by (simp add: as_dict_def dget_def str_or_empty_lower_def py_or_def Let_def)
  then show ?thesis
    by (auto simp: fallback_reason_from_rules_def finish_sentence_def generic_sentence_def Let_def)
qed

text \<open>
  C6. In a run of \<^verbatim>\<open>score_candidates\<close> where the justification batch has no entry for the
  id of a surviving match (the empty mapping included), the \<open>reasons\<close> of that match are a
  list of exactly one non-empty sentence, the one the deterministic fallback returns; and in
  every run that completes, each match carries exactly one non-empty reason.
\<close>

theorem fallback_reason_guaranteed:
  assumes "score_candidates lib reply parsed persona candidates user_text top_k = Inr ms"
    and "score_all lib parsed candidates = Inr results"
    and "generate_reasons_for_top_k lib reply user_text persona
           (map PDict (py_slice_to top_k (sort_desc results))) = Inr rs"
    and "m \<in> set ms"
    and "map_of rs (py_str lib (dget m ''id'')) = None"
  shows "(\<exists>s. dget m ''reasons'' = PList [PStr s] \<and> s \<noteq> []
              \<and> (\<exists>meta. fallback_reason_from_rules lib user_text persona meta = Inr s))
       \<and> (\<forall>m'\<in>set ms. \<exists>s. dget m' ''reasons'' = PList [PStr s] \<and> s \<noteq> [])"
proof -
  have one: "\<exists>s. dget m ''reasons'' = PList [PStr s] \<and> s \<noteq> []
              \<and> (\<exists>meta. fallback_reason_from_rules lib user_text persona meta = Inr s)"
  proof -
    from run_parts [OF assms(1-4)] obtain r
      where sh: "match_shape r" and a: "attach_reason lib user_text persona rs r = Inr m" by blast
    from attach_reason_fallback [OF a sh assms(5)] obtain s
      where f: "fallback_reason_from_rules lib user_text persona (PDict []) = Inr s"
        and m: "m = AList.update ''reasons'' (PList [PStr s]) r" by blast
    from m shape_update_reasons [OF sh, of "PList [PStr s]"]
    have "dget m ''reasons'' = PList [PStr s]" by simp
    with f fallback_nonempty [OF f] show ?thesis by blast
  qed
  have every: "\<forall>m'\<in>set ms. \<exists>s. dget m' ''reasons'' = PList [PStr s] \<and> s \<noteq> []"
  proof
    fix m' assume "m' \<in> set ms"
    from run_parts [OF assms(1-3) this] obtain r
      where sh: "match_shape r" and a: "attach_reason lib user_text persona rs r = Inr m'" by blast
    show "\<exists>s. dget m' ''reasons'' = PList [PStr s] \<and> s \<noteq> []"
    proof (cases "map_of rs (py_str lib (dget m' ''id''))")
      case None
      from attach_reason_fallback [OF a sh None] obtain s
        where f: "fallback_reason_from_rules lib user_text persona (PDict []) = Inr s"
          and m: "m' = AList.update ''reasons'' (PList [PStr s]) r" by blast
      from m shape_update_reasons [OF sh, of "PList [PStr s]"]
      have "dget m' ''reasons'' = PList [PStr s]" by simp
      with fallback_nonempty [OF f] show ?thesis by blast
    next
      case (Some v)
      from attach_reason_given [OF a sh Some]
      have m: "m' = AList.update ''reasons'' (PList [PStr v]) r" .
      from m shape_update_reasons [OF sh, of "PList [PStr v]"]
      have "dget m' ''reasons'' = PList [PStr v]" by simp
      with reasons_values_nonempty [OF assms(3) Some] show ?thesis by blast
    qed
  qed
  from one every show ?thesis ..
qed

theorem fallback_reason_guaranteed_witness:
  "(case score_candidates example_lib None example_parsed example_persona example_candidates
             ''family car'' 2 of
        Inl e \<Rightarrow> False
      | Inr ms \<Rightarrow> ms \<noteq> [] \<and> dget (hd ms) ''reasons'' = PList [PStr example_sentence])
   \<and> example_sentence \<noteq> []"
proof -
  from example_run obtain ms where
    run: "score_candidates example_lib None example_parsed example_persona example_candidates
            ''family car'' 2 = Inr ms"
    and rs: "map (\<lambda>m. dget m ''reasons'') ms
               = [PList [PStr example_sentence], PList [PStr example_sentence]]"
    by (auto split: sum.splits)
  from rs have ne: "ms \<noteq> []" by auto
  then have mem: "hd ms \<in> set ms" by simp
  from run obtain results rs where
    res: "score_all example_lib example_parsed example_candidates = Inr results" and
    gen: "generate_reasons_for_top_k example_lib None ''family car'' example_persona
            (map PDict (py_slice_to 2 (sort_desc results))) = Inr rs"
    by (auto simp: score_candidates_def Let_def split: sum.splits)
  from gen have "rs = []"
    by (auto simp: generate_reasons_for_top_k_def split: sum.splits)
  then have none: "map_of rs (py_str example_lib (dget (hd ms) ''id'')) = None" by simp
  from fallback_reason_guaranteed [OF run res gen mem none]
  obtain s where "dget (hd ms) ''reasons'' = PList [PStr s]" "s \<noteq> []" by blast
  moreover from rs ne have "dget (hd ms) ''reasons'' = PList [PStr example_sentence]"
    by (cases ms) auto
  ultimately show ?thesis using run ne by auto
qed

text \<open>
  C10. The dicts built by \<^verbatim>\<open>score_candidates\<close> have no \<open>metadata\<close> key, so for a match
  whose reason comes from the fallback the sentence is
  \<^verbatim>\<open>_fallback_reason_from_rules\<close> at the empty metadata mapping: it depends on the persona
  only, not on the candidate's body type, year, fuel or seats.
\<close>

theorem fallback_ignores_metadata:
  assumes "score_candidates lib reply parsed persona candidates user_text top_k = Inr ms"
    and "score_all lib parsed candidates = Inr results"
    and "generate_reasons_for_top_k lib reply user_text persona
           (map PDict (py_slice_to top_k (sort_desc results))) = Inr rs"
    and "m \<in> set ms"
    and "map_of rs (py_str lib (dget m ''id'')) = None"
  shows "map_of m ''metadata'' = None
       \<and> (\<exists>s. fallback_reason_from_rules lib user_text persona (PDict []) = Inr s
               \<and> dget m ''reasons'' = PList [PStr s])"
proof -
  from run_parts [OF assms(1-4)] obtain r
    where sh: "match_shape r" and a: "attach_reason lib user_text persona rs r = Inr m" by blast
  from attach_reason_fallback [OF a sh assms(5)] obtain s
    where f: "fallback_reason_from_rules lib user_text persona (PDict []) = Inr s"
      and m: "m = AList.update ''reasons'' (PList [PStr s]) r" by blast
  from m shape_update_reasons [OF sh, of "PList [PStr s]"]
  have "dget m ''reasons'' = PList [PStr s]" "map_of m ''metadata'' = None" by simp_all
  with f show ?thesis by blast
qed

theorem fallback_ignores_metadata_witness:
  "(case score_candidates example_lib None example_parsed example_persona example_candidates
             ''family car'' 2 of
        Inl e \<Rightarrow> False
      | Inr ms \<Rightarrow> ms \<noteq> [] \<and> map_of (hd ms) ''metadata'' = None
                 \<and> (case fallback_reason_from_rules example_lib ''family car'' example_persona
                            (PDict []) of
                      Inl e \<Rightarrow> False
                    | Inr s \<Rightarrow> dget (hd ms) ''reasons'' = PList [PStr s]))"
proof -
  from example_run obtain ms where
    run: "score_candidates example_lib None example_parsed example_persona example_candidates
            ''family car'' 2 = Inr ms"
    and rs: "map (\<lambda>m. dget m ''reasons'') ms
               = [PList [PStr example_sentence], PList [PStr example_sentence]]"
    by (auto split: sum.splits)
  from rs have ne: "ms \<noteq> []" by auto
  then have mem: "hd ms \<in> set ms" by simp
  from run obtain results rs where
    res: "score_all example_lib example_parsed example_candidates = Inr results" and
    gen: "generate_reasons_for_top_k example_lib None ''family car'' example_persona
            (map PDict (py_slice_to 2 (sort_desc results))) = Inr rs"
    by (auto simp: score_candidates_def Let_def split: sum.splits)
  from gen have "rs = []"
    by (auto simp: generate_reasons_for_top_k_def split: sum.splits)
  then have none: "map_of rs (py_str example_lib (dget (hd ms) ''id'')) = None" by simp
  from fallback_ignores_metadata [OF run res gen mem none] run ne show ?thesis
    by auto
qed

section \<open>Properties of the intent extractor\<close>

lemma map_of_setdefault:
  "map_of (setdefault d k v) k' = (if k' = k \<and> map_of d k = None then Some v else map_of d k')"
  by (auto simp: setdefault_def map_of_append map_add_def split: option.splits)

lemma map_of_fill_required:
  "map_of (fill_required d) k =
     (case map_of d k of
        Some v \<Rightarrow> Some v
      | None \<Rightarrow> map_of [(''family_size'', PNone), (''budget_band'', PNone), (''usage'', PList []),
                          (''preferences'', PList []), (''body_type_preference'', PList []),
                          (''other'', PDict [])] k)"
  by (simp add: fill_required_def map_of_setdefault split: option.splits)

lemma fill_required_well_shaped: "list_fields_ok d \<Longrightarrow> well_shaped (fill_required d)"
  by (auto simp: well_shaped_def six_keys_def required_keys_def list_fields_ok_def dget_def
      map_of_fill_required is_list_def split: option.splits)

lemma dget_update: "dget (AList.update k v d) k' = (if k' = k then v else dget d k')"
  by (simp add: dget_def update_conv')

lemma six_keys_update: "six_keys d \<Longrightarrow> six_keys (AList.update k v d)"
  by (simp add: six_keys_def required_keys_def update_conv')

lemma well_shaped_update:
  "well_shaped d \<Longrightarrow> (k \<in> {''usage'', ''preferences'', ''body_type_preference''} \<longrightarrow> is_list v)
     \<Longrightarrow> well_shaped (AList.update k v d)"
  unfolding well_shaped_def by (auto simp: dget_update six_keys_update)

lemma well_shaped_family: "well_shaped d \<Longrightarrow> well_shaped (enrich_family t d)"
  unfolding enrich_family_def by (auto intro!: well_shaped_update)

lemma well_shaped_budget: "well_shaped d \<Longrightarrow> well_shaped (enrich_budget t d)"
  unfolding enrich_budget_def by (auto intro!: well_shaped_update)

lemma enrich_midsize_ok:
  assumes "well_shaped d"
  shows "\<exists>d'. enrich_midsize t d = Inr d' \<and> well_shaped d'"
proof -
  from assms obtain xs where xs: "dget d ''body_type_preference'' = PList xs"
    by (auto simp: well_shaped_def is_list_def split: pyval.splits)
  have upd: "well_shaped (AList.update ''body_type_preference'' (PList (xs @ [PStr ''sedan''])) d)"
    using assms by (rule well_shaped_update) (simp add: is_list_def)
  show ?thesis
    using assms xs upd by (simp add: enrich_midsize_def sedan_missing_def py_append_def)
qed

lemma enrich_offroad_ok:
  assumes "well_shaped d"
  shows "\<exists>d'. enrich_offroad u d = Inr d' \<and> well_shaped d'"
proof -
  from assms obtain xs where xs: "dget d ''body_type_preference'' = PList xs"
    by (auto simp: well_shaped_def is_list_def split: pyval.splits)
  have upd: "well_shaped (AList.update ''body_type_preference'' (PList (xs @ [PStr ''suv''])) d)"
    using assms by (rule well_shaped_update) (simp add: is_list_def)
  show ?thesis
    using assms xs upd by (auto simp: enrich_offroad_def py_append_def)
qed

lemma enrich_from_text_ok:
  assumes "well_shaped (fill_required d)"
  shows "\<exists>d'. enrich_from_text d t = Inr d' \<and> six_keys d'"
proof -
  let ?p = "fill_required d"
  from assms obtain us ps where us: "dget ?p ''usage'' = PList us"
    and ps: "dget ?p ''preferences'' = PList ps"
    by (auto simp: well_shaped_def is_list_def split: pyval.splits)
  let ?p1 = "enrich_budget (py_lower t) (enrich_family (py_lower t) ?p)"
  have w1: "well_shaped ?p1"
    using assms by (intro well_shaped_budget well_shaped_family)
  from enrich_midsize_ok [OF w1, of "py_lower t"] obtain p2
    where p2: "enrich_midsize (py_lower t) ?p1 = Inr p2" and w2: "well_shaped p2" by blast
  from enrich_offroad_ok [OF w2, of "enrich_usage (py_lower t) (lower_strs us)"] obtain p3
    where p3: "enrich_offroad (enrich_usage (py_lower t) (lower_strs us)) p2 = Inr p3"
      and w3: "well_shaped p3" by blast
  from w3 have "six_keys p3" by (simp add: well_shaped_def)
  then have "six_keys (AList.update ''preferences'' (sorted_strs (enrich_prefs (py_lower t) (lower_strs ps)))
               (AList.update ''usage'' (sorted_strs (enrich_usage (py_lower t) (lower_strs us))) p3))"
    by (intro six_keys_update)
  with us ps p2 p3 show ?thesis
    by (simp add: enrich_from_text_def Let_def)
qed

lemma heuristic_ok: "\<exists>d'. simple_heuristic_parse t = Inr d' \<and> six_keys d'"
proof -
  let ?d0 = "[(''family_size'', PNone), (''budget_band'', PNone), (''usage'', PList []),
              (''preferences'', PList []), (''body_type_preference'', PList []),
              (''other'', PDict [(''heuristic'', PBool True)])]"
  have "list_fields_ok ?d0" by (simp add: list_fields_ok_def is_list_def)
  then have "well_shaped (fill_required ?d0)" by (rule fill_required_well_shaped)
  then have "well_shaped (fill_required (fill_required ?d0))"
    by (simp add: fill_required_def setdefault_def)
  from enrich_from_text_ok [OF this, of t] show ?thesis
    by (simp add: simple_heuristic_parse_def normalize_shape_def)
qed

text \<open>
  C2. When the completion returns nothing on both calls (absent or empty),
  \<^verbatim>\<open>parse_user_needs\<close> does not raise for any user text and returns a dict in which all six
  fields are present.
\<close>

theorem parse_user_needs_empty_replies:
  assumes "reply1 = None \<or> reply1 = Some []" and "reply2 = None \<or> reply2 = Some []"
  shows "\<exists>d. parse_user_needs lib reply1 reply2 user_text = Inr d
           \<and> list_all (\<lambda>k. map_of d k \<noteq> None)
                [''family_size'', ''budget_band'', ''usage'', ''preferences'',
                 ''body_type_preference'', ''other'']"
proof -
  from assms(1) have "looks_truncated reply1" by (auto simp: looks_truncated_def)
  with assms(2) have "parse_user_needs lib reply1 reply2 user_text = simple_heuristic_parse user_text"
    by (auto simp: parse_user_needs_def)
  with heuristic_ok [of user_text] show ?thesis
    by (simp add: six_keys_def required_keys_def)
qed

theorem parse_user_needs_empty_replies_witness:
  "\<exists>d. parse_user_needs example_lib None (Some []) scenario_text = Inr d
       \<and> list_all (\<lambda>k. map_of d k \<noteq> None)
            [''family_size'', ''budget_band'', ''usage'', ''preferences'',
             ''body_type_preference'', ''other'']"
  using parse_user_needs_empty_replies [of None "Some []" example_lib scenario_text]
  by simp

text \<open>
  C5 fails as stated: on the scenario text the keyword pass finds \<open>family\<close> only. None of
  its city phrases occurs (the text says \<open>daily city commuting\<close>, the rules look for
  \<open>daily commuting\<close>, \<open>city driving\<close> and the like), and it has no rule that reads a
  price, so the budget band stays unset.
\<close>

theorem heuristic_scenario_misses:
  "(case simple_heuristic_parse scenario_text of
      Inl e \<Rightarrow> False
    | Inr d \<Rightarrow>
        PStr ''family'' \<in> set (case dget d ''usage'' of PList xs \<Rightarrow> xs | _ \<Rightarrow> [])
        \<and> dget d ''family_size'' = PInt 3
        \<and> PStr ''city'' \<notin> set (case dget d ''usage'' of PList xs \<Rightarrow> xs | _ \<Rightarrow> [])
        \<and> dget d ''budget_band'' \<noteq> PStr ''low'')"
  by code_simp

text \<open>
  C5, amended. For the scenario text the heuristic-only path yields the usage \<open>family\<close>, the
  family size 3 and no budget band.
\<close>

theorem heuristic_scenario: "simple_heuristic_parse scenario_text = Inr scenario_intent"
  by code_simp

lemma heuristic_or_raise_cases:
  "(\<exists>d'. heuristic_or_raise raw t = Inr d' \<and> six_keys d' \<and> looks_truncated raw)
   \<or> (heuristic_or_raise raw t = Inl RuntimeError \<and> \<not> looks_truncated raw)"
  using heuristic_ok [of t] by (auto simp: heuristic_or_raise_def)

lemma parse_with_text:
  assumes "(if looks_truncated reply1 then reply2 else reply1) = Some raw" "raw \<noteq> []"
  shows "parse_user_needs lib reply1 reply2 t =
     (case (case fence_search raw of Some g \<Rightarrow> Some g | None \<Rightarrow> find_first_balanced_json raw) of
        None \<Rightarrow>
          (case attempt_json_load lib (Some raw) of
             None \<Rightarrow> heuristic_or_raise (Some raw) t
           | Some v \<Rightarrow>
              (case v of
                 PDict d \<Rightarrow> (case enrich_from_text (fill_required d) t of
                              Inl e \<Rightarrow> heuristic_or_raise (Some raw) t
                            | Inr parsed \<Rightarrow> Inr parsed)
               | _ \<Rightarrow> heuristic_or_raise (Some raw) t))
      | Some jt \<Rightarrow>
          (case attempt_json_load lib (Some jt) of
             None \<Rightarrow> heuristic_or_raise (Some raw) t
           | Some parsed \<Rightarrow>
              (case normalize_shape parsed of
                 Inl e \<Rightarrow> Inl e
               | Inr parsed \<Rightarrow> enrich_from_text parsed t)))"
  using assms
  by (simp add: parse_user_needs_def Let_def split: option.splits pyval.splits)

lemma fill_required_idem: "fill_required (fill_required d) = fill_required d"
proof -
  have "\<And>d k v. map_of d k \<noteq> None \<Longrightarrow> setdefault d k v = d"
    by (auto simp: setdefault_def)
  moreover have "\<And>k. k \<in> set required_keys \<Longrightarrow> map_of (fill_required d) k \<noteq> None"
    by (auto simp: map_of_fill_required required_keys_def split: option.splits)
  ultimately show ?thesis
    unfolding fill_required_def [of "fill_required d"] required_keys_def by simp
qed

lemma enrich_dict_ok:
  assumes "list_fields_ok d"
  shows "\<exists>d'. enrich_from_text (fill_required d) t = Inr d' \<and> six_keys d'"
proof -
  from assms have "well_shaped (fill_required (fill_required d))"
    by (simp add: fill_required_idem fill_required_well_shaped)
  then show ?thesis by (rule enrich_from_text_ok)
qed

text \<open>
  C8 fails as stated: a reply from which no JSON can be decoded and that does not look
  truncated makes \<^verbatim>\<open>parse_user_needs\<close> raise.
\<close>

theorem parse_user_needs_raises_on_prose:
  "parse_user_needs example_lib (Some ''hello world'') None scenario_text = Inl RuntimeError
   \<and> extracted example_lib ''hello world'' = None"
  by code_simp

text \<open>
  C8, amended. Let the reply that is used be a non-empty text, and let the list-valued fields
  of a decoded object, where present, be lists. Then \<^verbatim>\<open>parse_user_needs\<close> either returns an
  intent with all six fields, or raises \<^verbatim>\<open>RuntimeError\<close>; it raises only when the decoded
  value is not an object, or when nothing can be decoded and the reply does not look
  truncated, and in the latter case it always raises. When nothing can be decoded and the
  reply looks truncated, the result is the heuristic intent; when an object is decoded, the
  result is that object, normalized and enriched from the user text.
\<close>

theorem parse_user_needs_outcomes:
  assumes "(if looks_truncated reply1 then reply2 else reply1) = Some raw" and "raw \<noteq> []"
    and "\<forall>d. extracted lib raw = Some (PDict d) \<longrightarrow> list_fields_ok d"
  shows "((\<exists>d'. parse_user_needs lib reply1 reply2 user_text = Inr d' \<and> six_keys d')
          \<or> (parse_user_needs lib reply1 reply2 user_text = Inl RuntimeError
              \<and> ((\<exists>v. extracted lib raw = Some v \<and> \<not> is_dict v)
                  \<or> (extracted lib raw = None \<and> \<not> looks_truncated (Some raw)))))
       \<and> (extracted lib raw = None \<and> \<not> looks_truncated (Some raw)
            \<longrightarrow> parse_user_needs lib reply1 reply2 user_text = Inl RuntimeError)
       \<and> (extracted lib raw = None \<and> looks_truncated (Some raw)
            \<longrightarrow> parse_user_needs lib reply1 reply2 user_text
                  = simple_heuristic_parse user_text)
       \<and> (\<forall>d. extracted lib raw = Some (PDict d)
            \<longrightarrow> parse_user_needs lib reply1 reply2 user_text
                  = enrich_from_text (fill_required d) user_text)"
proof -
  let ?jt = "case fence_search raw of Some g \<Rightarrow> Some g | None \<Rightarrow> find_first_balanced_json raw"
  let ?src = "case ?jt of None \<Rightarrow> raw | Some j \<Rightarrow> j"
  have ex: "extracted lib raw = attempt_json_load lib (Some ?src)"
    by (simp add: extracted_def split: option.splits)
  note hr = heuristic_or_raise_cases [of "Some raw" user_text]
  note pw = parse_with_text [OF assms(1,2), of lib user_text]
  show ?thesis
  proof (cases "extracted lib raw")
    case None
    with ex pw have "parse_user_needs lib reply1 reply2 user_text
                       = heuristic_or_raise (Some raw) user_text"
      by (auto split: option.splits)
    with hr None show ?thesis by (auto simp: heuristic_or_raise_def)
  next
    case (Some v)
    show ?thesis
    proof (cases "is_dict v")
      case True
      then obtain d where d: "v = PDict d" by (cases v) (simp_all add: is_dict_def)
      with Some assms(3) have "list_fields_ok d" by simp
      from enrich_dict_ok [OF this, of user_text] obtain d'
        where e: "enrich_from_text (fill_required d) user_text = Inr d'" and k: "six_keys d'"
        by blast
      from Some d ex pw e have "parse_user_needs lib reply1 reply2 user_text = Inr d'"
        by (auto simp: normalize_shape_def split: option.splits)
      with k e d Some show ?thesis by simp
    next
      case False
      then have nd: "normalize_shape v = Inl RuntimeError"
        by (cases v) (simp_all add: is_dict_def normalize_shape_def)
      from False Some ex pw nd
      have "parse_user_needs lib reply1 reply2 user_text = heuristic_or_raise (Some raw) user_text
            \<or> parse_user_needs lib reply1 reply2 user_text = Inl RuntimeError"
        by (cases v) (auto simp: is_dict_def split: option.splits)
      with hr Some False show ?thesis by (auto simp: is_dict_def)
    qed
  qed
qed

theorem parse_user_needs_outcomes_witness:
  "(if looks_truncated (Some example_object) then None else Some example_object)
     = Some example_object
   \<and> example_object \<noteq> []
   \<and> extracted example_lib example_object = Some (PDict [(''usage'', PList [PStr ''city''])])
   \<and> list_fields_ok [(''usage'', PList [PStr ''city''])]
   \<and> (\<exists>d'. parse_user_needs example_lib (Some example_object) None scenario_text = Inr d'
            \<and> six_keys d')
   \<and> parse_user_needs example_lib (Some example_object) None scenario_text
       = enrich_from_text (fill_required [(''usage'', PList [PStr ''city''])]) scenario_text
   \<and> (if looks_truncated None then Some short_reply else None) = Some short_reply
   \<and> short_reply \<noteq> []
   \<and> extracted example_lib short_reply = None
   \<and> looks_truncated (Some short_reply)
   \<and> parse_user_needs example_lib None (Some short_reply) scenario_text
       = simple_heuristic_parse scenario_text"
proof -
  have a: "(if looks_truncated (Some example_object) then None else Some example_object)
             = Some example_object"
    by code_simp
  have b: "example_object \<noteq> []" by code_simp
  have c: "extracted example_lib example_object
             = Some (PDict [(''usage'', PList [PStr ''city''])])"
    by code_simp
  have d: "list_fields_ok [(''usage'', PList [PStr ''city''])]" by code_simp
  from c d have e: "\<forall>d. extracted example_lib example_object = Some (PDict d)
                       \<longrightarrow> list_fields_ok d"
    by simp
  note object = parse_user_needs_outcomes [OF a b e, of scenario_text]
  have "(\<exists>d'. parse_user_needs example_lib (Some example_object) None scenario_text = Inr d'
              \<and> six_keys d')
        \<or> (parse_user_needs example_lib (Some example_object) None scenario_text
              = Inl RuntimeError
            \<and> ((\<exists>v. extracted example_lib example_object = Some v \<and> \<not> is_dict v)
                \<or> (extracted example_lib example_object = None
                    \<and> \<not> looks_truncated (Some example_object))))"
    using object by (rule conjunct1)
  moreover from c have "\<not> (\<exists>v. extracted example_lib example_object = Some v \<and> \<not> is_dict v)"
    by (simp add: is_dict_def)
  moreover from c have "extracted example_lib example_object \<noteq> None" by simp
  ultimately
  have six: "\<exists>d'. parse_user_needs example_lib (Some example_object) None scenario_text = Inr d'
                 \<and> six_keys d'"
    by blast
  from object c
  have enriched: "parse_user_needs example_lib (Some example_object) None scenario_text
      = enrich_from_text (fill_required [(''usage'', PList [PStr ''city''])]) scenario_text"
    by blast
  have f: "(if looks_truncated None then Some short_reply else None) = Some short_reply"
    by code_simp
  have g: "short_reply \<noteq> []" by code_simp
  have h: "extracted example_lib short_reply = None" by code_simp
  have i: "looks_truncated (Some short_reply)" by code_simp
  from h have j: "\<forall>d. extracted example_lib short_reply = Some (PDict d) \<longrightarrow> list_fields_ok d"
    by simp
  from parse_user_needs_outcomes [OF f g j, of scenario_text] h i
  have retried: "parse_user_needs example_lib None (Some short_reply) scenario_text
                   = simple_heuristic_parse scenario_text"
    by blast
  from a b c d six enriched f g h i retried show ?thesis by blast
qed

text \<open>
  The length test of \<^verbatim>\<open>_looks_truncated\<close> counts characters: the two characters U+306F
  U+3044 are six bytes of UTF-8 and still fewer than five characters, so the reply is retried,
  and with no second reply the heuristic intent is returned.
\<close>

lemma short_reply_is_retried:
  "py_len (py_strip short_reply) = 2
   \<and> looks_truncated (Some short_reply)
   \<and> parse_user_needs example_lib (Some short_reply) None scenario_text
       = simple_heuristic_parse scenario_text"
  by code_simp

text \<open>
  A decoded object whose \<open>usage\<close> is \<^verbatim>\<open>null\<close> makes the enrichment raise: its set
  comprehension iterates the field unguarded, where \<^verbatim>\<open>build_persona\<close> and
  \<^verbatim>\<open>_persona_match_score\<close> read the same field as \<^verbatim>\<open>parsed.get("usage", []) or []\<close>.
\<close>

lemma parse_user_needs_null_usage:
  "parse_user_needs example_lib (Some example_null_usage) None scenario_text = Inl TypeError"
  by code_simp

subsection \<open>The scanner for the first balanced object\<close>

lemma quotes_upto_Suc:
  "quotes_upto r (Suc k) = quotes_upto r k + (if is_delimiter r k then 1 else 0)"
  by (simp add: quotes_upto_def)

lemma depth_after_Suc: "depth_after r (Suc k) = depth_after r k + brace_step r k"
  by (simp add: depth_after_def)

lemma find_upt_step:
  "k < n \<Longrightarrow> find P [k..<n] = (if P k then Some k else find P [Suc k..<n])"
  by (simp add: upt_conv_Cons)

lemma find_upt_ge: "find P [k..<n] = Some m \<Longrightarrow> k \<le> m"
  by (auto simp: find_Some_iff)

lemma scan_json_step:
  assumes "k < length r"
  shows "scan_json (drop k r) (depth_after r k) (odd (quotes_upto r k)) (escaped r k) =
     (if odd (quotes_upto r (Suc k))
      then map_option Suc (scan_json (drop (Suc k) r) (depth_after r k)
                             (odd (quotes_upto r (Suc k))) (escaped r (Suc k)))
      else if depth_after r (Suc k) = 0 then Some 1
      else map_option Suc (scan_json (drop (Suc k) r) (depth_after r (Suc k))
                             (odd (quotes_upto r (Suc k))) (escaped r (Suc k))))
     \<and> (odd (quotes_upto r (Suc k)) \<longrightarrow> depth_after r (Suc k) = depth_after r k)"
proof -
  from assms have d: "drop k r = r ! k # drop (Suc k) r"
    by (simp add: Cons_nth_drop_Suc)
  show ?thesis
    unfolding d
    by (auto simp: Let_def quotes_upto_Suc depth_after_Suc brace_step_def inside_string_def
        is_delimiter_def)
qed

lemma scan_json_spec:
  assumes "k \<le> length r" and "\<forall>n. 1 \<le> n \<and> n \<le> k \<longrightarrow> depth_after r n \<noteq> 0"
    and "k = 0 \<longrightarrow> r \<noteq> [] \<and> r ! 0 = CHR ''{''"
  shows "scan_json (drop k r) (depth_after r k) (odd (quotes_upto r k)) (escaped r k)
           = map_option (\<lambda>n. n - k) (find (\<lambda>n. depth_after r n = 0) [Suc k..<Suc (length r)])"
  using assms
proof (induction "length r - k" arbitrary: k)
  case 0
  then have "k = length r" by simp
  then show ?case by simp
next
  case (Suc d)
  then have lt: "k < length r" by simp
  let ?P = "\<lambda>n. depth_after r n = 0"
  note st = scan_json_step [OF lt]
  have fs: "find ?P [Suc k..<Suc (length r)]
              = (if ?P (Suc k) then Some (Suc k) else find ?P [Suc (Suc k)..<Suc (length r)])"
  proof -
    from lt have "Suc k < Suc (length r)" by simp
    then show ?thesis by (rule find_upt_step)
  qed
  have shift: "map_option Suc (map_option (\<lambda>n. n - Suc k) (find ?P [Suc (Suc k)..<Suc (length r)]))
                 = map_option (\<lambda>n. n - k) (find ?P [Suc (Suc k)..<Suc (length r)])"
  proof (cases "find ?P [Suc (Suc k)..<Suc (length r)]")
    case None
    then show ?thesis by simp
  next
    case (Some m)
    from find_upt_ge [OF this] have "Suc (Suc k) \<le> m" .
    with Some show ?thesis by simp
  qed
  have nz: "depth_after r (Suc k) \<noteq> 0 \<Longrightarrow>
     scan_json (drop (Suc k) r) (depth_after r (Suc k)) (odd (quotes_upto r (Suc k)))
        (escaped r (Suc k))
       = map_option (\<lambda>n. n - Suc k) (find ?P [Suc (Suc k)..<Suc (length r)])"
  proof -
    assume a: "depth_after r (Suc k) \<noteq> 0"
    have "\<forall>n. 1 \<le> n \<and> n \<le> Suc k \<longrightarrow> depth_after r n \<noteq> 0"
      using Suc.prems(2) a by (auto simp: le_Suc_eq)
    with Suc.hyps(2) lt show ?thesis
      by (intro Suc.hyps(1)) auto
  qed
  show ?case
  proof (cases "odd (quotes_upto r (Suc k))")
    case True
    with st have same: "depth_after r (Suc k) = depth_after r k" by simp
    have k0: "k \<noteq> 0"
    proof
      assume "k = 0"
      with Suc.prems(3) have "r ! 0 = CHR ''{''" by simp
      with \<open>k = 0\<close> have "quotes_upto r (Suc k) = 0"
        by (simp add: quotes_upto_def is_delimiter_def)
      with True show False by simp
    qed
    with Suc.prems(2) have "depth_after r k \<noteq> 0" by simp
    with same have a: "depth_after r (Suc k) \<noteq> 0" by simp
    from st True same have "scan_json (drop k r) (depth_after r k) (odd (quotes_upto r k)) (escaped r k)
        = map_option Suc (scan_json (drop (Suc k) r) (depth_after r (Suc k))
                             (odd (quotes_upto r (Suc k))) (escaped r (Suc k)))"
      by simp
    with nz [OF a] shift fs a show ?thesis by simp
  next
    case False
    show ?thesis
    proof (cases "depth_after r (Suc k) = 0")
      case z: True
      with st False fs show ?thesis by simp
    next
      case nzc: False
      from st False nzc have "scan_json (drop k r) (depth_after r k) (odd (quotes_upto r k)) (escaped r k)
        = map_option Suc (scan_json (drop (Suc k) r) (depth_after r (Suc k))
                             (odd (quotes_upto r (Suc k))) (escaped r (Suc k)))"
        by simp
      with nz [OF nzc] shift fs nzc show ?thesis by simp
    qed
  qed
qed

text \<open>
  C9. For every string \<^verbatim>\<open>_find_first_balanced_json\<close> returns the text from the first
  \<open>{\<close> up to its matching \<open>}\<close>, where the depth ignores the braces inside double-quoted
  string literals and a quote after an unescaped backslash does not delimit a literal; it
  returns nothing when there is no such balanced object.
\<close>

theorem find_first_balanced_json_spec: "find_first_balanced_json s = balanced_spec s"
proof -
  define r where "r = dropWhile (\<lambda>c. c \<noteq> CHR ''{'') s"
  show ?thesis
  proof (cases "r = []")
    case True
    then have "matching_close r = None" by (simp add: matching_close_def)
    with True show ?thesis
      by (simp add: find_first_balanced_json_def balanced_spec_def r_def [symmetric] Let_def)
  next
    case False
    then have "\<not> (hd r \<noteq> CHR ''{'')" unfolding r_def by (rule hd_dropWhile)
    with False have h: "r ! 0 = CHR ''{''" by (simp add: hd_conv_nth)
    have "scan_json (drop 0 r) (depth_after r 0) (odd (quotes_upto r 0)) (escaped r 0)
            = map_option (\<lambda>n. n - 0) (find (\<lambda>n. depth_after r n = 0) [Suc 0..<Suc (length r)])"
      using False h by (intro scan_json_spec) auto
    then have "scan_json r 0 False False = matching_close r"
      by (simp add: depth_after_def quotes_upto_def matching_close_def option.map_ident
          del: upt_Suc)
    with False show ?thesis
      by (simp add: find_first_balanced_json_def balanced_spec_def r_def [symmetric] Let_def
          split: option.splits)
  qed
qed

theorem find_first_balanced_json_spec_witness:
  \<open>find_first_balanced_json scanner_example = Some ''{"a": "}{", "b": {"c": 1}}''
   \<and> balanced_spec scanner_example = Some ''{"a": "}{", "b": {"c": 1}}''\<close>
proof -
  have \<open>find_first_balanced_json scanner_example = Some ''{"a": "}{", "b": {"c": 1}}''\<close>
    by code_simp
  with find_first_balanced_json_spec [of scanner_example] show ?thesis by simp
qed

end
